theory Spec2Isabelle
  imports Main "HOL-Library.Word" "HOL-Library.Monad_Syntax"
begin

unbundle bit_operations_syntax

section \<open>The source gateway of source.go\<close>

text \<open>
  A shallow embedding of \<^verbatim>\<open>source.go\<close>: the state bitset, the gateway record, the
  \<^verbatim>\<open>require\<close> loop that advances the state, and the gateway's operations.
  The gateway mutex is left out: every operation holds it from entry to return, so the
  operations of one gateway run one after the other, which is what state passing says.
\<close>

subsection \<open>Bit sets\<close>

text \<open>\<^verbatim>\<open>type sourceExistence uint8\<close>, constants \<^verbatim>\<open>1 << iota\<close>.\<close>

type_synonym sourceExistence = "8 word"

definition existsInVendorRoot :: sourceExistence where
  "existsInVendorRoot = 1"

definition existsInCache :: sourceExistence where
  "existsInCache = 2"

definition existsUpstream :: sourceExistence where
  "existsUpstream = 4"

text \<open>\<^verbatim>\<open>type sourceState int32\<close>, constants \<^verbatim>\<open>1 << iota\<close>. Only bitwise operations,
  shifts and comparison with 0 are applied to it, so the sign plays no role.\<close>

type_synonym sourceState = "32 word"

definition sourceIsSetUp :: sourceState where
  "sourceIsSetUp = 1"

definition sourceExistsUpstream :: sourceState where
  "sourceExistsUpstream = 2"

definition sourceExistsLocally :: sourceState where
  "sourceExistsLocally = 4"

definition sourceHasLatestVersionList :: sourceState where
  "sourceHasLatestVersionList = 8"

definition sourceHasLatestLocally :: sourceState where
  "sourceHasLatestLocally = 16"

subsection \<open>Values passed through the gateway\<close>

type_synonym Version = string
type_synonym Revision = string
type_synonym PairedVersion = "Version \<times> Revision"
type_synonym ProjectRoot = string
type_synonym Manifest = string
type_synonym Lock = string
type_synonym PackageTree = "string list"

text \<open>An analyzer is represented by what \<^verbatim>\<open>an.Info()\<close> returns, its name and version.\<close>

type_synonym ProjectAnalyzer = "string \<times> int"

text \<open>
  Go's \<^verbatim>\<open>error\<close> values. The first three are produced outside \<^verbatim>\<open>source.go\<close> (by the
  candidate probe, the supervisor and the adapter); the next three are the
  \<^verbatim>\<open>fmt.Errorf\<close> calls of \<^verbatim>\<open>source.go\<close>; the last is the run-time panic of a method
  call on \<^verbatim>\<open>sg.src\<close> while it is nil.
\<close>

datatype error =
    ProbeFailed string
  | SupervisorRefused string
  | BackendError string
  | NotUpstream string
  | FetchFailed string error
  | NoSuchVersion Version
  | NilSourcePanic

text \<open>The categories a call is dispatched under.\<close>

datatype callType =
    ctSourcePing
  | ctSourceInit
  | ctSourceFetch
  | ctExportTree
  | ctListVersions
  | ctGetManifestAndLock
  | ctListPackages

subsection \<open>The single-source cache\<close>

text \<open>
  Modelled from the spec: the implementation of \<^verbatim>\<open>singleSourceCache\<close>
  (\<^verbatim>\<open>newMemoryCache\<close> and its methods) is not in \<^verbatim>\<open>source.go\<close>. The record holds the
  entries the specification lists: the version list with its \<open>complete\<close> flag, the
  forward map, the reverse map (whose domain also carries the marks for revisions known
  to exist), the manifests and locks per revision and analyzer, and the package trees.
  The functions that follow are the methods of its contract (section 4.1 of the
  specification): \<open>flush\<close> replaces the version list and both maps, and without it the
  new list is merged into them.
\<close>

record singleSourceCache =
  vList :: "PairedVersion list"
  complete :: bool
  vMap :: "Version \<rightharpoonup> Revision"
  rMap :: "Revision \<rightharpoonup> Version list"
  mlCache :: "Revision \<times> ProjectAnalyzer \<rightharpoonup> Manifest \<times> Lock"
  ptrees :: "Revision \<rightharpoonup> PackageTree"

definition newMemoryCache :: singleSourceCache where
  "newMemoryCache =
     \<lparr>vList = [], complete = False, vMap = Map.empty, rMap = Map.empty,
      mlCache = Map.empty, ptrees = Map.empty\<rparr>"

definition cache_toRevision :: "singleSourceCache \<Rightarrow> Version \<Rightarrow> Revision option" where
  "cache_toRevision c v = vMap c v"

definition cache_getVersionsFor :: "singleSourceCache \<Rightarrow> Revision \<Rightarrow> Version list option" where
  "cache_getVersionsFor c r = rMap c r"

definition cache_markRevisionExists :: "singleSourceCache \<Rightarrow> Revision \<Rightarrow> singleSourceCache" where
  "cache_markRevisionExists c r =
     (case rMap c r of None \<Rightarrow> c\<lparr>rMap := (rMap c)(r \<mapsto> [])\<rparr> | Some vs \<Rightarrow> c)"

fun cache_addVersion :: "PairedVersion \<Rightarrow> singleSourceCache \<Rightarrow> singleSourceCache" where
  "cache_addVersion (v, r) c =
     c\<lparr>vMap := (vMap c)(v \<mapsto> r),
       rMap := (rMap c)(r \<mapsto> (case rMap c r of None \<Rightarrow> [v] | Some vs \<Rightarrow> vs @ [v]))\<rparr>"

definition cache_storeVersionMap ::
  "singleSourceCache \<Rightarrow> PairedVersion list \<Rightarrow> bool \<Rightarrow> singleSourceCache" where
  "cache_storeVersionMap c pvl flush =
     (let c0 = (if flush then c\<lparr>vList := [], complete := True, vMap := Map.empty, rMap := Map.empty\<rparr>
                else c)
      in fold cache_addVersion pvl (c0\<lparr>vList := vList c0 @ pvl\<rparr>))"

definition cache_getAllVersions :: "singleSourceCache \<Rightarrow> PairedVersion list" where
  "cache_getAllVersions c = vList c"

definition cache_getManifestAndLock ::
  "singleSourceCache \<Rightarrow> Revision \<Rightarrow> ProjectAnalyzer \<Rightarrow> (Manifest \<times> Lock) option" where
  "cache_getManifestAndLock c r an = mlCache c (r, an)"

definition cache_setManifestAndLock ::
  "singleSourceCache \<Rightarrow> Revision \<Rightarrow> ProjectAnalyzer \<Rightarrow> Manifest \<Rightarrow> Lock \<Rightarrow> singleSourceCache" where
  "cache_setManifestAndLock c r an m l = c\<lparr>mlCache := (mlCache c)((r, an) \<mapsto> (m, l))\<rparr>"

definition cache_getPackageTree :: "singleSourceCache \<Rightarrow> Revision \<Rightarrow> PackageTree option" where
  "cache_getPackageTree c r = ptrees c r"

definition cache_setPackageTree ::
  "singleSourceCache \<Rightarrow> Revision \<Rightarrow> PackageTree \<Rightarrow> singleSourceCache" where
  "cache_setPackageTree c r t = c\<lparr>ptrees := (ptrees c)(r \<mapsto> t)\<rparr>"

subsection \<open>The adapter, the supervisor and the candidate probe\<close>

text \<open>
  The \<^verbatim>\<open>source\<close> interface. Its implementations act on the network and the disk, which
  the model collects in a state \<open>'w\<close> that the gateway passes along. The calls the
  gateway dispatches through the supervisor may change \<open>'w\<close>; \<^verbatim>\<open>existsLocally\<close> and
  \<^verbatim>\<open>revisionPresentIn\<close>, which the gateway calls directly, read it.
  \<^verbatim>\<open>listVersions\<close> and \<^verbatim>\<open>revisionPresentIn\<close> return a value together with the error, as
  the gateway uses both.
\<close>

record 'w source =
  src_existsLocally :: "'w \<Rightarrow> bool"
  src_existsUpstream :: "'w \<Rightarrow> bool \<times> 'w"
  src_upstreamURL :: string
  src_initLocal :: "'w \<Rightarrow> error option \<times> 'w"
  src_updateLocal :: "'w \<Rightarrow> error option \<times> 'w"
  src_listVersions :: "'w \<Rightarrow> (PairedVersion list \<times> error option) \<times> 'w"
  src_getManifestAndLock ::
    "ProjectRoot \<Rightarrow> Revision \<Rightarrow> ProjectAnalyzer \<Rightarrow> 'w \<Rightarrow> (error + Manifest \<times> Lock) \<times> 'w"
  src_listPackages :: "ProjectRoot \<Rightarrow> Revision \<Rightarrow> 'w \<Rightarrow> (error + PackageTree) \<times> 'w"
  src_revisionPresentIn :: "Revision \<Rightarrow> 'w \<Rightarrow> bool \<times> error option"
  src_exportRevisionTo :: "Revision \<Rightarrow> string \<Rightarrow> 'w \<Rightarrow> error option \<times> 'w"
  src_sourceType :: string

text \<open>
  The supervisor is not in \<^verbatim>\<open>source.go\<close>; the model takes as a parameter its decision
  to run a call of a category in the present state (\<open>None\<close>) or to refuse it with an
  error.
\<close>

type_synonym 'w supervisor = "callType \<Rightarrow> 'w \<Rightarrow> error option"

text \<open>
  The candidate probe \<^verbatim>\<open>maybeSource.try(ctx, cachedir, cache, superv)\<close> is not in
  \<^verbatim>\<open>source.go\<close> either and is a parameter too. It returns an error, or an adapter with
  the bits it satisfied on the way. It is handed the gateway's cache, which it may
  write, so the model has it return the cache as well.
\<close>

type_synonym 'w maybeSource =
  "string \<Rightarrow> singleSourceCache \<Rightarrow> 'w supervisor \<Rightarrow> 'w
     \<Rightarrow> (error + 'w source \<times> sourceState) \<times> singleSourceCache \<times> 'w"

subsection \<open>The gateway\<close>

text \<open>
  \<^verbatim>\<open>type sourceGateway struct\<close>. Two fields are the model's: \<open>world\<close>, the state the
  adapter acts on, and \<open>calls\<close>, the categories of the calls this gateway has passed
  to \<^verbatim>\<open>supervisor.do\<close>, oldest first.
\<close>

record 'w sourceGateway =
  cachedir :: string
  maybe :: "'w maybeSource"
  srcState :: sourceState
  src :: "'w source option"
  cache :: singleSourceCache
  suprvsr :: "'w supervisor"
  world :: 'w
  calls :: "callType list"

text \<open>\<^verbatim>\<open>newSourceGateway\<close>, with the state the adapter will act on.\<close>

definition newSourceGateway :: "'w maybeSource \<Rightarrow> 'w supervisor \<Rightarrow> string \<Rightarrow> 'w \<Rightarrow> 'w sourceGateway" where
  "newSourceGateway mb superv cdir w =
     \<lparr>cachedir = cdir, maybe = mb, srcState = 0, src = None, cache = newMemoryCache,
      suprvsr = superv, world = w, calls = []\<rparr>"

text \<open>
  Modelled from the spec: \<^verbatim>\<open>supervisor.do(ctx, label, category, fn)\<close> is not in
  \<^verbatim>\<open>source.go\<close>. It dispatches \<open>fn\<close> under its accounting and returns the error of
  \<open>fn\<close>, or refuses and returns its own error without running \<open>fn\<close>. The closures of
  \<^verbatim>\<open>source.go\<close> assign to variables of the enclosing function; \<open>fn\<close> returns their
  values along with its error, and \<open>zero\<close> is what they hold when \<open>fn\<close> did not run.
  The label only names the call and is left out.
\<close>

definition suprvsr_do ::
  "callType \<Rightarrow> 'a \<Rightarrow> ('w \<Rightarrow> ('a \<times> error option) \<times> 'w) \<Rightarrow> 'w sourceGateway
     \<Rightarrow> ('a \<times> error option) \<times> 'w sourceGateway" where
  "suprvsr_do ct zero fn sg =
     (let sg1 = sg\<lparr>calls := calls sg @ [ct]\<rparr> in
      case suprvsr sg ct (world sg) of
        Some e \<Rightarrow> ((zero, Some e), sg1)
      | None \<Rightarrow> (case fn (world sg) of (res, w') \<Rightarrow> (res, sg1\<lparr>world := w'\<rparr>)))"

subsection \<open>require\<close>

text \<open>
  The \<^verbatim>\<open>switch flag\<close> of \<^verbatim>\<open>require\<close>: the work for one bit. It returns \<open>addlState\<close>,
  \<open>err\<close> and the gateway. A flag without a case does nothing.
\<close>

definition require_switch ::
  "sourceState \<Rightarrow> 'w sourceGateway \<Rightarrow> sourceState \<times> error option \<times> 'w sourceGateway" where
  "require_switch flag sg =
    (if flag = sourceIsSetUp then
       (case maybe sg (cachedir sg) (cache sg) (suprvsr sg) (world sg) of
          (Inr (s, addlState), c', w') \<Rightarrow>
             (addlState, None, sg\<lparr>src := Some s, cache := c', world := w'\<rparr>)
        | (Inl e, c', w') \<Rightarrow>
             (0, Some e, sg\<lparr>src := None, cache := c', world := w'\<rparr>))
     else if flag = sourceExistsUpstream then
       (case src sg of
          None \<Rightarrow> (0, Some NilSourcePanic, sg)
        | Some s \<Rightarrow>
            (case suprvsr_do ctSourcePing ()
                    (\<lambda>w. case src_existsUpstream s w of
                            (ok, w') \<Rightarrow>
                              (((), if \<not> ok then Some (NotUpstream (src_upstreamURL s)) else None), w'))
                    sg of
               ((_, err), sg') \<Rightarrow> (0, err, sg')))
     else if flag = sourceExistsLocally then
       (case src sg of
          None \<Rightarrow> (0, Some NilSourcePanic, sg)
        | Some s \<Rightarrow>
            if \<not> src_existsLocally s (world sg) then
              (case suprvsr_do ctSourceInit ()
                      (\<lambda>w. case src_initLocal s w of (err, w') \<Rightarrow> (((), err), w')) sg of
                 ((_, None), sg') \<Rightarrow> (sourceHasLatestLocally, None, sg')
               | ((_, Some e), sg') \<Rightarrow> (0, Some (FetchFailed (src_upstreamURL s) e), sg'))
            else (0, None, sg))
     else if flag = sourceHasLatestVersionList then
       (case src sg of
          None \<Rightarrow> (0, Some NilSourcePanic, sg)
        | Some s \<Rightarrow>
            (case suprvsr_do ctListVersions [] (src_listVersions s) sg of
               ((pvl, err), sg') \<Rightarrow>
                 (0, err,
                  if err \<noteq> None then sg'\<lparr>cache := cache_storeVersionMap (cache sg') pvl True\<rparr>
                  else sg')))
     else if flag = sourceHasLatestLocally then
       (case src sg of
          None \<Rightarrow> (0, Some NilSourcePanic, sg)
        | Some s \<Rightarrow>
            (case suprvsr_do ctSourceFetch ()
                    (\<lambda>w. case src_updateLocal s w of (err, w') \<Rightarrow> (((), err), w')) sg of
               ((_, err), sg') \<Rightarrow> (0, err, sg')))
     else (0, None, sg))"

text \<open>
  The \<^verbatim>\<open>for todo != 0\<close> loop. \<open>flag\<close> is shifted left at the end of every round; a
  32-bit flag that has been shifted out is 0 and matches no bit any more, so the loop
  as such need not end: not returning is \<open>None\<close>.
\<close>

partial_function (option) require_loop ::
  "sourceState \<Rightarrow> sourceState \<Rightarrow> 'w sourceGateway
     \<Rightarrow> ((sourceState \<times> error option) \<times> 'w sourceGateway) option" where
  "require_loop flag todo sg =
    (if todo = 0 then Some ((0, None), sg)
     else if todo AND flag \<noteq> 0 then
       (case require_switch flag sg of
          (addlState, Some e, sg') \<Rightarrow> Some ((flag, Some e), sg')
        | (addlState, None, sg') \<Rightarrow>
            (let checked = flag OR addlState in
             require_loop (push_bit 1 flag) (todo AND NOT checked)
               (sg'\<lparr>srcState := srcState sg' OR checked\<rparr>)))
     else require_loop (push_bit 1 flag) todo sg)"

definition require ::
  "sourceState \<Rightarrow> 'w sourceGateway \<Rightarrow> ((sourceState \<times> error option) \<times> 'w sourceGateway) option" where
  "require wanted sg = require_loop 1 (NOT (srcState sg) AND wanted) sg"

subsection \<open>The operations of the gateway\<close>

definition syncLocal :: "'w sourceGateway \<Rightarrow> (error option \<times> 'w sourceGateway) option" where
  "syncLocal sg =
     do {
       ((errState, err), sg1) \<leftarrow>
         require (sourceIsSetUp OR sourceExistsLocally OR sourceHasLatestLocally) sg;
       Some (err, sg1)
     }"

text \<open>
  \<^verbatim>\<open>checkExistence\<close> turns an error of \<^verbatim>\<open>require\<close> into \<^verbatim>\<open>false\<close>; a panic is not an
  error value and goes on to the caller.
\<close>

definition checkExistence_failed :: "error \<Rightarrow> error + bool" where
  "checkExistence_failed e = (if e = NilSourcePanic then Inl e else Inr False)"

definition checkExistence ::
  "sourceExistence \<Rightarrow> 'w sourceGateway \<Rightarrow> ((error + bool) \<times> 'w sourceGateway) option" where
  "checkExistence ex sg =
     do {
       (err1, sg1) \<leftarrow>
         (if ex AND existsUpstream \<noteq> 0 then
            do {
              ((errState, err), sg') \<leftarrow> require (sourceIsSetUp OR sourceExistsUpstream) sg;
              Some (err, sg')
            }
          else Some (None, sg));
       case err1 of
         Some e \<Rightarrow> Some (checkExistence_failed e, sg1)
       | None \<Rightarrow>
           do {
             (err2, sg2) \<leftarrow>
               (if ex AND existsInCache \<noteq> 0 then
                  do {
                    ((errState, err), sg') \<leftarrow> require (sourceIsSetUp OR sourceExistsLocally) sg1;
                    Some (err, sg')
                  }
                else Some (None, sg1));
             case err2 of
               Some e \<Rightarrow> Some (checkExistence_failed e, sg2)
             | None \<Rightarrow> Some (Inr True, sg2)
           }
     }"

definition convertToRevision ::
  "Version \<Rightarrow> 'w sourceGateway \<Rightarrow> ((error + Revision) \<times> 'w sourceGateway) option" where
  "convertToRevision v sg =
     (case cache_toRevision (cache sg) v of
        Some r \<Rightarrow> Some (Inr r, sg)
      | None \<Rightarrow>
          if srcState sg AND sourceHasLatestVersionList \<noteq> 0 then Some (Inl (NoSuchVersion v), sg)
          else
            do {
              ((errState, err), sg1) \<leftarrow> require (sourceIsSetUp OR sourceHasLatestVersionList) sg;
              case err of
                Some e \<Rightarrow> Some (Inl e, sg1)
              | None \<Rightarrow>
                  (case cache_toRevision (cache sg1) v of
                     None \<Rightarrow> Some (Inl (NoSuchVersion v), sg1)
                   | Some r \<Rightarrow> Some (Inr r, sg1))
            })"

text \<open>The dispatch \<^verbatim>\<open>sg.suprvsr.do(ctx, sg.src.upstreamURL(), ctExportTree, func ...)\<close>
  of \<^verbatim>\<open>exportVersionTo\<close>.\<close>

definition dispatch_exportRevisionTo ::
  "'w source \<Rightarrow> Revision \<Rightarrow> string \<Rightarrow> 'w sourceGateway
     \<Rightarrow> (unit \<times> error option) \<times> 'w sourceGateway" where
  "dispatch_exportRevisionTo s r to sg =
     suprvsr_do ctExportTree ()
       (\<lambda>w. case src_exportRevisionTo s r to w of (err, w') \<Rightarrow> (((), err), w'))
       sg"

definition exportVersionTo ::
  "Version \<Rightarrow> string \<Rightarrow> 'w sourceGateway \<Rightarrow> (error option \<times> 'w sourceGateway) option" where
  "exportVersionTo v to sg =
     do {
       ((errState, err), sg1) \<leftarrow> require (sourceIsSetUp OR sourceExistsLocally) sg;
       case err of
         Some e \<Rightarrow> Some (Some e, sg1)
       | None \<Rightarrow>
           do {
             (rr, sg2) \<leftarrow> convertToRevision v sg1;
             case rr of
               Inl e \<Rightarrow> Some (Some e, sg2)
             | Inr r \<Rightarrow>
                 (case src sg2 of
                    None \<Rightarrow> Some (Some NilSourcePanic, sg2)
                  | Some s \<Rightarrow>
                      (case dispatch_exportRevisionTo s r to sg2 of
                         ((u, err), sg3) \<Rightarrow> Some (err, sg3)))
           }
     }"

text \<open>
  The two dispatches \<^verbatim>\<open>err = sg.suprvsr.do(ctx, label, ..., func ...)\<close> of
  \<^verbatim>\<open>getManifestAndLock\<close> and \<^verbatim>\<open>listPackages\<close>: the closure assigns the adapter's
  results to \<open>m, l\<close> and to \<open>ptree\<close>, which hold Go's zero values otherwise.
\<close>

definition dispatch_getManifestAndLock ::
  "'w source \<Rightarrow> ProjectRoot \<Rightarrow> Revision \<Rightarrow> ProjectAnalyzer \<Rightarrow> 'w sourceGateway
     \<Rightarrow> ((Manifest \<times> Lock) \<times> error option) \<times> 'w sourceGateway" where
  "dispatch_getManifestAndLock s pr r an sg =
     suprvsr_do ctGetManifestAndLock ([], [])
       (\<lambda>w. case src_getManifestAndLock s pr r an w of
               (Inl e, w') \<Rightarrow> ((([], []), Some e), w')
             | (Inr ml, w') \<Rightarrow> ((ml, None), w'))
       sg"

definition dispatch_listPackages ::
  "'w source \<Rightarrow> ProjectRoot \<Rightarrow> Revision \<Rightarrow> 'w sourceGateway
     \<Rightarrow> (PackageTree \<times> error option) \<times> 'w sourceGateway" where
  "dispatch_listPackages s pr r sg =
     suprvsr_do ctListPackages []
       (\<lambda>w. case src_listPackages s pr r w of
               (Inl e, w') \<Rightarrow> (([], Some e), w')
             | (Inr ptree, w') \<Rightarrow> ((ptree, None), w'))
       sg"

definition getManifestAndLock ::
  "ProjectRoot \<Rightarrow> Version \<Rightarrow> ProjectAnalyzer \<Rightarrow> 'w sourceGateway
     \<Rightarrow> ((error + Manifest \<times> Lock) \<times> 'w sourceGateway) option" where
  "getManifestAndLock pr v an sg =
     do {
       (rr, sg1) \<leftarrow> convertToRevision v sg;
       case rr of
         Inl e \<Rightarrow> Some (Inl e, sg1)
       | Inr r \<Rightarrow>
           (case cache_getManifestAndLock (cache sg1) r an of
              Some (m, l) \<Rightarrow> Some (Inr (m, l), sg1)
            | None \<Rightarrow>
                do {
                  ((errState, err), sg2) \<leftarrow> require (sourceIsSetUp OR sourceExistsLocally) sg1;
                  case err of
                    Some e \<Rightarrow> Some (Inl e, sg2)
                  | None \<Rightarrow>
                      (case src sg2 of
                         None \<Rightarrow> Some (Inl NilSourcePanic, sg2)
                       | Some s \<Rightarrow>
                           (case dispatch_getManifestAndLock s pr r an sg2 of
                              (((m, l), Some e), sg3) \<Rightarrow> Some (Inl e, sg3)
                            | (((m, l), None), sg3) \<Rightarrow>
                                Some (Inr (m, l),
                                      sg3\<lparr>cache := cache_setManifestAndLock (cache sg3) r an m l\<rparr>)))
                })
     }"

definition listPackages ::
  "ProjectRoot \<Rightarrow> Version \<Rightarrow> 'w sourceGateway
     \<Rightarrow> ((error + PackageTree) \<times> 'w sourceGateway) option" where
  "listPackages pr v sg =
     do {
       (rr, sg1) \<leftarrow> convertToRevision v sg;
       case rr of
         Inl e \<Rightarrow> Some (Inl e, sg1)
       | Inr r \<Rightarrow>
           (case cache_getPackageTree (cache sg1) r of
              Some ptree \<Rightarrow> Some (Inr ptree, sg1)
            | None \<Rightarrow>
                do {
                  ((errState, err), sg2) \<leftarrow> require (sourceIsSetUp OR sourceExistsLocally) sg1;
                  case err of
                    Some e \<Rightarrow> Some (Inl e, sg2)
                  | None \<Rightarrow>
                      (case src sg2 of
                         None \<Rightarrow> Some (Inl NilSourcePanic, sg2)
                       | Some s \<Rightarrow>
                           (case dispatch_listPackages s pr r sg2 of
                              ((ptree, Some e), sg3) \<Rightarrow> Some (Inl e, sg3)
                            | ((ptree, None), sg3) \<Rightarrow>
                                Some (Inr ptree,
                                      sg3\<lparr>cache := cache_setPackageTree (cache sg3) r ptree\<rparr>)))
                })
     }"

definition listVersions ::
  "'w sourceGateway \<Rightarrow> ((error + PairedVersion list) \<times> 'w sourceGateway) option" where
  "listVersions sg =
     do {
       ((errState, err), sg1) \<leftarrow>
         require (sourceIsSetUp OR sourceExistsUpstream OR sourceHasLatestVersionList) sg;
       case err of
         Some e \<Rightarrow> Some (Inl e, sg1)
       | None \<Rightarrow> Some (Inr (cache_getAllVersions (cache sg1)), sg1)
     }"

text \<open>\<^verbatim>\<open>revisionPresentIn\<close> returns \<^verbatim>\<open>(bool, error)\<close>, and both can carry information.\<close>

definition revisionPresentIn ::
  "Revision \<Rightarrow> 'w sourceGateway \<Rightarrow> ((bool \<times> error option) \<times> 'w sourceGateway) option" where
  "revisionPresentIn r sg =
     do {
       ((errState, err), sg1) \<leftarrow> require (sourceIsSetUp OR sourceExistsLocally) sg;
       case err of
         Some e \<Rightarrow> Some ((False, Some e), sg1)
       | None \<Rightarrow>
           (case cache_getVersionsFor (cache sg1) r of
              Some vs \<Rightarrow> Some ((True, None), sg1)
            | None \<Rightarrow>
                (case src sg1 of
                   None \<Rightarrow> Some ((False, Some NilSourcePanic), sg1)
                 | Some s \<Rightarrow>
                     (case src_revisionPresentIn s r (world sg1) of
                        (present, err) \<Rightarrow>
                          Some ((present, err),
                                if err = None \<and> present
                                then sg1\<lparr>cache := cache_markRevisionExists (cache sg1) r\<rparr>
                                else sg1))))
     }"

definition sourceURL :: "'w sourceGateway \<Rightarrow> ((error + string) \<times> 'w sourceGateway) option" where
  "sourceURL sg =
     do {
       ((errState, err), sg1) \<leftarrow> require sourceIsSetUp sg;
       case err of
         Some e \<Rightarrow> Some (Inl e, sg1)
       | None \<Rightarrow>
           (case src sg1 of
              None \<Rightarrow> Some (Inl NilSourcePanic, sg1)
            | Some s \<Rightarrow> Some (Inr (src_upstreamURL s), sg1))
     }"

subsection \<open>Sequences of operations\<close>

text \<open>A call of one of the gateway's operations with its arguments, and the gateway
  after a call and after a sequence of calls.\<close>

datatype gatewayCall =
    CallSyncLocal
  | CallCheckExistence sourceExistence
  | CallExportVersionTo Version string
  | CallGetManifestAndLock ProjectRoot Version ProjectAnalyzer
  | CallListPackages ProjectRoot Version
  | CallConvertToRevision Version
  | CallListVersions
  | CallRevisionPresentIn Revision
  | CallSourceURL

fun after_call :: "gatewayCall \<Rightarrow> 'w sourceGateway \<Rightarrow> 'w sourceGateway option" where
  "after_call CallSyncLocal sg = map_option snd (syncLocal sg)"
| "after_call (CallCheckExistence ex) sg = map_option snd (checkExistence ex sg)"
| "after_call (CallExportVersionTo v to) sg = map_option snd (exportVersionTo v to sg)"
| "after_call (CallGetManifestAndLock pr v an) sg = map_option snd (getManifestAndLock pr v an sg)"
| "after_call (CallListPackages pr v) sg = map_option snd (listPackages pr v sg)"
| "after_call (CallConvertToRevision v) sg = map_option snd (convertToRevision v sg)"
| "after_call CallListVersions sg = map_option snd (listVersions sg)"
| "after_call (CallRevisionPresentIn r) sg = map_option snd (revisionPresentIn r sg)"
| "after_call CallSourceURL sg = map_option snd (sourceURL sg)"

fun after_calls :: "gatewayCall list \<Rightarrow> 'w sourceGateway \<Rightarrow> 'w sourceGateway option" where
  "after_calls [] sg = Some sg"
| "after_calls (c # cs) sg =
     (case after_call c sg of None \<Rightarrow> None | Some sg' \<Rightarrow> after_calls cs sg')"

subsection \<open>The base adapter\<close>

text \<open>
  \<^verbatim>\<open>baseVCSSource\<close> wraps a repository object \<^verbatim>\<open>bs.crepo.r\<close>, whose methods are outside
  \<^verbatim>\<open>source.go\<close> and are parameters here.
\<close>

record 'w ctxRepo =
  repo_Vcs :: string
  repo_CheckLocal :: "'w \<Rightarrow> bool"
  repo_Ping :: "'w \<Rightarrow> bool"
  repo_Remote :: string
  repo_IsReference :: "string \<Rightarrow> 'w \<Rightarrow> bool"

record 'w baseVCSSource =
  crepo :: "'w ctxRepo"

definition bs_sourceType :: "'w baseVCSSource \<Rightarrow> string" where
  "bs_sourceType bs = repo_Vcs (crepo bs)"

definition bs_existsLocally :: "'w baseVCSSource \<Rightarrow> 'w \<Rightarrow> bool" where
  "bs_existsLocally bs w = repo_CheckLocal (crepo bs) w"

definition bs_existsUpstream :: "'w baseVCSSource \<Rightarrow> 'w \<Rightarrow> bool" where
  "bs_existsUpstream bs w = (\<not> repo_Ping (crepo bs) w)"

definition bs_upstreamURL :: "'w baseVCSSource \<Rightarrow> string" where
  "bs_upstreamURL bs = repo_Remote (crepo bs)"

definition bs_revisionPresentIn :: "'w baseVCSSource \<Rightarrow> Revision \<Rightarrow> 'w \<Rightarrow> bool \<times> error option" where
  "bs_revisionPresentIn bs r w = (repo_IsReference (crepo bs) r w, None)"

subsection \<open>Notions for stating the properties\<close>

text \<open>The bits the candidate probe reports as satisfied, when run by this gateway.\<close>

definition probe_reported :: "'w sourceGateway \<Rightarrow> sourceState" where
  "probe_reported sg =
     (case fst (maybe sg (cachedir sg) (cache sg) (suprvsr sg) (world sg)) of
        Inr (s, addlState) \<Rightarrow> addlState
      | Inl e \<Rightarrow> 0)"

text \<open>
  How a run of the loop that started at bit \<open>j\<close> with \<open>todo\<close> has failed at bit \<open>k\<close>
  with \<open>(f, e)\<close>: the step of \<open>k\<close> returned \<open>e\<close> and left the gateway \<open>sg'\<close>; bit \<open>k\<close>
  is not set; the bits of \<open>todo\<close> below \<open>k\<close> are set; and a bit that is set was set
  before, or is a bit of \<open>todo\<close> below \<open>k\<close>, or was reported by a step.
\<close>

definition failure_shape ::
  "nat \<Rightarrow> sourceState \<Rightarrow> 'w sourceGateway \<Rightarrow> sourceState \<Rightarrow> error \<Rightarrow> 'w sourceGateway \<Rightarrow> nat \<Rightarrow> bool" where
  "failure_shape j todo sg f e sg' k \<longleftrightarrow>
     j \<le> k \<and> k < 32 \<and> f = push_bit k 1 \<and> bit todo k \<and> \<not> bit (srcState sg') k \<and>
     (\<exists>sgk addl. require_switch f sgk = (addl, Some e, sg')) \<and>
     (\<forall>n<k. bit todo n \<longrightarrow> bit (srcState sg') n) \<and>
     (\<forall>n. bit (srcState sg') n \<longrightarrow>
          bit (srcState sg) n \<or> (n < k \<and> bit todo n) \<or> bit sourceHasLatestLocally n \<or>
          (j = 0 \<and> bit todo 0 \<and> bit (probe_reported sg) n))"

text \<open>
  What the steps of \<^verbatim>\<open>require(wanted)\<close> below bit \<open>k\<close> report as satisfied on the way
  (\<open>addlState\<close>). Two steps report anything. The set-up step, which is run when bit 0
  is wanted and not set, reports what the candidate probe returns. The exists-locally
  step, which is run when bit 2 is wanted, not set and not reported by the probe,
  reports \<open>sourceHasLatestLocally\<close> when it finds no local copy and \<^verbatim>\<open>initLocal\<close> succeeds;
  it is run on the gateway that \<^verbatim>\<open>require\<close> of the wanted bits below bit 2 leaves.
\<close>

definition reported_by_probe :: "nat \<Rightarrow> sourceState \<Rightarrow> 'w sourceGateway \<Rightarrow> sourceState" where
  "reported_by_probe k wanted sg =
     (if 0 < k \<and> bit wanted 0 \<and> \<not> bit (srcState sg) 0 then probe_reported sg else 0)"

definition no_local_copy :: "sourceState \<Rightarrow> 'w sourceGateway \<Rightarrow> bool" where
  "no_local_copy wanted sg =
     (case require (take_bit 2 wanted) sg of
        Some (res, sg2) \<Rightarrow>
          (case src sg2 of Some s \<Rightarrow> \<not> src_existsLocally s (world sg2) | None \<Rightarrow> False)
      | None \<Rightarrow> False)"

definition reported_by_init :: "nat \<Rightarrow> sourceState \<Rightarrow> 'w sourceGateway \<Rightarrow> sourceState" where
  "reported_by_init k wanted sg =
     (if 2 < k \<and> bit wanted 2 \<and> \<not> bit (srcState sg) 2 \<and>
         \<not> bit (reported_by_probe k wanted sg) 2 \<and> no_local_copy wanted sg
      then sourceHasLatestLocally else 0)"



subsection \<open>A concrete source, for evaluating the operations\<close>

text \<open>
  A world that records whether the local clone exists and whether the upstream can be
  reached, and an adapter over it that knows two versions.
\<close>

record demoWorld =
  cloned :: bool
  reachable :: bool

definition demo_versions :: "PairedVersion list" where
  "demo_versions = [(''v1.2.3'', ''r1''), (''master'', ''r2'')]"

definition demo_source :: "demoWorld source" where
  "demo_source =
     \<lparr>src_existsLocally = cloned,
      src_existsUpstream = (\<lambda>w. (reachable w, w)),
      src_upstreamURL = ''https://example.com/x/y'',
      src_initLocal =
        (\<lambda>w. if reachable w then (None, w\<lparr>cloned := True\<rparr>)
              else (Some (BackendError ''clone failed''), w)),
      src_updateLocal =
        (\<lambda>w. if reachable w then (None, w) else (Some (BackendError ''fetch failed''), w)),
      src_listVersions =
        (\<lambda>w. if reachable w then ((demo_versions, None), w)
              else (([], Some (BackendError ''unreachable'')), w)),
      src_getManifestAndLock =
        (\<lambda>pr r an w. if fst an = ''broken'' then (Inl (BackendError ''analysis failed''), w)
                      else (Inr (''manifest at '' @ r, ''lock at '' @ r), w)),
      src_listPackages =
        (\<lambda>pr r w. if r = ''r2'' then (Inl (BackendError ''no packages''), w)
                   else (Inr [pr], w)),
      src_revisionPresentIn = (\<lambda>r w. (r = ''r1'' \<or> r = ''r2'' \<or> r = ''r3'', None)),
      src_exportRevisionTo = (\<lambda>r to w. (None, w)),
      src_sourceType = ''git''\<rparr>"

text \<open>A supervisor that runs every call.\<close>

definition demo_suprvsr :: "demoWorld supervisor" where
  "demo_suprvsr = (\<lambda>ct w. None)"

text \<open>
  Three probes: one that lists the versions while probing, stores them in the cache and
  reports the bits this satisfies; one that reports nothing and leaves the cache alone;
  and one that works from the local clone and reports \<open>sourceExistsLocally\<close>.
\<close>

definition listing_maybe :: "demoWorld maybeSource" where
  "listing_maybe =
     (\<lambda>cdir c superv w.
        if reachable w
        then (Inr (demo_source, sourceIsSetUp OR sourceExistsUpstream OR sourceHasLatestVersionList),
              cache_storeVersionMap c demo_versions True, w)
        else (Inl (ProbeFailed ''unreachable''), c, w))"

definition quiet_maybe :: "demoWorld maybeSource" where
  "quiet_maybe = (\<lambda>cdir c superv w. (Inr (demo_source, 0), c, w))"

definition local_maybe :: "demoWorld maybeSource" where
  "local_maybe =
     (\<lambda>cdir c superv w.
        if cloned w then (Inr (demo_source, sourceExistsLocally), c, w)
        else (Inl (ProbeFailed ''no clone''), c, w))"

text \<open>The cache once \<open>demo_versions\<close> has been stored in it.\<close>

definition demo_cache :: singleSourceCache where
  "demo_cache = cache_storeVersionMap newMemoryCache demo_versions True"

text \<open>
  Gateways over this source. A new gateway, with a probe of one's choice; new gateways
  whose upstream cannot be reached (without a clone, and with one and the probe that
  works from it); and the new gateway with the listing probe once that probe has run.
\<close>

definition fresh_gateway :: "demoWorld maybeSource \<Rightarrow> demoWorld sourceGateway" where
  "fresh_gateway mb = newSourceGateway mb demo_suprvsr ''/cache'' \<lparr>cloned = False, reachable = True\<rparr>"

definition unreachable_gateway :: "demoWorld sourceGateway" where
  "unreachable_gateway =
     newSourceGateway listing_maybe demo_suprvsr ''/cache'' \<lparr>cloned = False, reachable = False\<rparr>"

definition offline_gateway :: "demoWorld sourceGateway" where
  "offline_gateway =
     newSourceGateway local_maybe demo_suprvsr ''/cache'' \<lparr>cloned = True, reachable = False\<rparr>"

definition probed_gateway :: "demoWorld sourceGateway" where
  "probed_gateway =
     (fresh_gateway listing_maybe)
       \<lparr>src := Some demo_source,
        srcState := sourceIsSetUp OR sourceExistsUpstream OR sourceHasLatestVersionList,
        cache := demo_cache\<rparr>"

text \<open>
  Gateways that are set up: one whose version list has been loaded, without a clone; the
  same with its clone; and one with a clone and the versions in its cache whose version
  list is not marked as loaded and whose upstream cannot be reached.
\<close>

definition listed_gateway :: "demoWorld sourceGateway" where
  "listed_gateway =
     (fresh_gateway quiet_maybe)
       \<lparr>srcState := sourceIsSetUp OR sourceHasLatestVersionList, src := Some demo_source,
        cache := demo_cache\<rparr>"

definition cloned_gateway :: "demoWorld sourceGateway" where
  "cloned_gateway =
     (newSourceGateway quiet_maybe demo_suprvsr ''/cache'' \<lparr>cloned = True, reachable = True\<rparr>)
       \<lparr>srcState := sourceIsSetUp OR sourceExistsLocally OR sourceHasLatestVersionList,
        src := Some demo_source, cache := demo_cache\<rparr>"

definition stale_gateway :: "demoWorld sourceGateway" where
  "stale_gateway =
     (newSourceGateway quiet_maybe demo_suprvsr ''/cache'' \<lparr>cloned = True, reachable = False\<rparr>)
       \<lparr>src := Some demo_source, srcState := sourceIsSetUp OR sourceExistsLocally,
        cache := demo_cache\<rparr>"

text \<open>
  The gateways that the operations leave behind in the evaluations below: after
  \<^verbatim>\<open>syncLocal\<close> on \<open>listed_gateway\<close>; after the first \<^verbatim>\<open>getManifestAndLock\<close>, after a
  \<^verbatim>\<open>require\<close> for the clone and after an export on the new gateway with the listing
  probe; after the failed ping on \<open>offline_gateway\<close>; and after \<^verbatim>\<open>require\<close> for the
  version list on the new gateway with the quiet probe.
\<close>

definition synced_gateway :: "demoWorld sourceGateway" where
  "synced_gateway =
     listed_gateway
       \<lparr>srcState := sourceIsSetUp OR sourceExistsLocally OR sourceHasLatestVersionList
                     OR sourceHasLatestLocally,
        world := \<lparr>cloned = True, reachable = True\<rparr>, calls := [ctSourceInit]\<rparr>"


definition unresolved_gateway :: "demoWorld sourceGateway" where
  "unresolved_gateway =
     probed_gateway
       \<lparr>srcState := sourceIsSetUp OR sourceExistsUpstream OR sourceExistsLocally
                     OR sourceHasLatestVersionList OR sourceHasLatestLocally,
        world := \<lparr>cloned = True, reachable = True\<rparr>, calls := [ctSourceInit]\<rparr>"

definition exported_gateway :: "demoWorld sourceGateway" where
  "exported_gateway = unresolved_gateway\<lparr>calls := [ctSourceInit, ctExportTree]\<rparr>"

definition offline_probed_gateway :: "demoWorld sourceGateway" where
  "offline_probed_gateway =
     offline_gateway
       \<lparr>src := Some demo_source, srcState := sourceIsSetUp OR sourceExistsLocally,
        calls := [ctSourcePing]\<rparr>"

definition unlisted_gateway :: "demoWorld sourceGateway" where
  "unlisted_gateway =
     (fresh_gateway quiet_maybe)
       \<lparr>src := Some demo_source, srcState := sourceIsSetUp OR sourceHasLatestVersionList,
        calls := [ctListVersions]\<rparr>"

text \<open>
  A supervisor that refuses to list versions, and a new gateway under it with the quiet
  probe; and that gateway after \<^verbatim>\<open>require\<close> has set it up, cloned the source and been
  refused the version list.
\<close>

definition listless_suprvsr :: "demoWorld supervisor" where
  "listless_suprvsr = (\<lambda>ct w. if ct = ctListVersions then Some (SupervisorRefused ''busy'') else None)"

definition guarded_gateway :: "demoWorld sourceGateway" where
  "guarded_gateway =
     newSourceGateway quiet_maybe listless_suprvsr ''/cache'' \<lparr>cloned = False, reachable = True\<rparr>"

definition guarded_cloned_gateway :: "demoWorld sourceGateway" where
  "guarded_cloned_gateway =
     guarded_gateway
       \<lparr>src := Some demo_source,
        srcState := sourceIsSetUp OR sourceExistsLocally OR sourceHasLatestLocally,
        world := \<lparr>cloned = True, reachable = True\<rparr>,
        calls := [ctSourceInit, ctListVersions],
        cache := cache_storeVersionMap newMemoryCache [] True\<rparr>"






section \<open>Properties\<close>

lemmas state_bits = sourceIsSetUp_def sourceExistsUpstream_def sourceExistsLocally_def
  sourceHasLatestVersionList_def sourceHasLatestLocally_def

subsection \<open>Bits of a state\<close>

lemma state_bit_bound: "bit (a :: sourceState) n \<Longrightarrow> n < 32"
  using bit_imp_le_length [of a n] by simp

lemma state_eq_iff: "(a :: sourceState) = b \<longleftrightarrow> (\<forall>n. bit a n \<longleftrightarrow> bit b n)"
  by (auto intro: bit_word_eqI)

lemma bit_flag_iff: "bit (push_bit k 1 :: sourceState) n \<longleftrightarrow> n = k \<and> k < 32"
  by (auto simp: bit_simps)

lemma bit_flag_iff': "bit (2 ^ k :: sourceState) n \<longleftrightarrow> n = k \<and> k < 32"
  using bit_flag_iff [of k n] by simp

lemma take_bit_zero_iff: "take_bit k (x :: sourceState) = 0 \<longleftrightarrow> (\<forall>m<k. \<not> bit x m)"
proof -
  have "take_bit k x = 0 \<longleftrightarrow> (\<forall>m. \<not> bit (take_bit k x) m)"
    by (simp add: state_eq_iff)
  also have "\<dots> \<longleftrightarrow> (\<forall>m<k. \<not> bit x m)"
    by (auto simp: bit_take_bit_iff)
  finally show ?thesis .
qed

lemma and_flag_zero_iff: "(x :: sourceState) AND push_bit k 1 = 0 \<longleftrightarrow> (k < 32 \<longrightarrow> \<not> bit x k)"
proof -
  have "x AND push_bit k 1 = 0 \<longleftrightarrow> (\<forall>m. \<not> bit (x AND push_bit k 1) m)"
    by (simp only: state_eq_iff bit_0_eq) simp
  also have "\<dots> \<longleftrightarrow> (k < 32 \<longrightarrow> \<not> bit x k)"
    by (simp only: bit_and_iff bit_flag_iff) auto
  finally show ?thesis .
qed

subsection \<open>The loop of require\<close>

lemma switch_frame:
  "require_switch flag sg = (addl, err, sg') \<Longrightarrow>
     srcState sg' = srcState sg \<and> maybe sg' = maybe sg \<and> suprvsr sg' = suprvsr sg \<and> cachedir sg' = cachedir sg"
  unfolding require_switch_def suprvsr_do_def
  by (auto split: if_splits option.splits prod.splits sum.splits simp: Let_def)

lemma loop_finished: "require_loop flag 0 sg = Some ((0, None), sg)"
  by (subst require_loop.simps) simp

lemma loop_skipped:
  "todo \<noteq> 0 \<Longrightarrow> todo AND flag = 0 \<Longrightarrow>
     require_loop flag todo sg = require_loop (push_bit 1 flag) todo sg"
  by (subst require_loop.simps) simp

lemma loop_failed:
  "todo \<noteq> 0 \<Longrightarrow> todo AND flag \<noteq> 0 \<Longrightarrow> require_switch flag sg = (addl, Some e, sg') \<Longrightarrow>
     require_loop flag todo sg = Some ((flag, Some e), sg')"
  by (subst require_loop.simps) simp

lemma loop_passed:
  "todo \<noteq> 0 \<Longrightarrow> todo AND flag \<noteq> 0 \<Longrightarrow> require_switch flag sg = (addl, None, sg') \<Longrightarrow>
     require_loop flag todo sg =
     require_loop (push_bit 1 flag) (todo AND NOT (flag OR addl))
       (sg'\<lparr>srcState := srcState sg' OR (flag OR addl)\<rparr>)"
  by (subst require_loop.simps) simp

text \<open>Induction over a run of the loop: one case for each way through its body.\<close>

lemma require_loop_induct [consumes 1, case_names finished failed passed skipped]:
  assumes run: "require_loop flag todo sg = Some y"
    and finished: "\<And>flag sg. P flag 0 sg ((0, None), sg)"
    and failed: "\<And>flag todo sg addl e sg'.
        todo \<noteq> 0 \<Longrightarrow> todo AND flag \<noteq> 0 \<Longrightarrow> require_switch flag sg = (addl, Some e, sg')
        \<Longrightarrow> P flag todo sg ((flag, Some e), sg')"
    and passed: "\<And>flag todo sg addl sg' y.
        todo \<noteq> 0 \<Longrightarrow> todo AND flag \<noteq> 0 \<Longrightarrow> require_switch flag sg = (addl, None, sg')
        \<Longrightarrow> require_loop (push_bit 1 flag) (todo AND NOT (flag OR addl))
              (sg'\<lparr>srcState := srcState sg' OR (flag OR addl)\<rparr>) = Some y
        \<Longrightarrow> P (push_bit 1 flag) (todo AND NOT (flag OR addl))
              (sg'\<lparr>srcState := srcState sg' OR (flag OR addl)\<rparr>) y
        \<Longrightarrow> P flag todo sg y"
    and skipped: "\<And>flag todo sg y.
        todo \<noteq> 0 \<Longrightarrow> todo AND flag = 0 \<Longrightarrow> require_loop (push_bit 1 flag) todo sg = Some y
        \<Longrightarrow> P (push_bit 1 flag) todo sg y \<Longrightarrow> P flag todo sg y"
  shows "P flag todo sg y"
proof -
  have "require_loop flag todo sg = Some y \<longrightarrow> P flag todo sg y"
  proof (rule require_loop.raw_induct
      [where P = "\<lambda>f t g r. require_loop f t g = Some r \<longrightarrow> P f t g r", OF _ run])
    fix f :: "sourceState \<Rightarrow> sourceState \<Rightarrow> 'a sourceGateway
                \<Rightarrow> ((sourceState \<times> error option) \<times> 'a sourceGateway) option"
    fix flag todo sg y
    assume IH: "\<And>t g b r. f t g b = Some r \<Longrightarrow> require_loop t g b = Some r \<longrightarrow> P t g b r"
    assume body: "(if todo = 0 then Some ((0, None), sg)
      else if todo AND flag \<noteq> 0
           then case require_switch flag sg of
                (addlState, None, sg') \<Rightarrow>
                  let checked = flag OR addlState
                  in f (push_bit 1 flag) (todo AND NOT checked)
                      (sg'\<lparr>srcState := srcState sg' OR checked\<rparr>)
                | (addlState, Some e, sg') \<Rightarrow> Some ((flag, Some e), sg')
           else f (push_bit 1 flag) todo sg) = Some y"
    show "require_loop flag todo sg = Some y \<longrightarrow> P flag todo sg y"
    proof
      assume actual: "require_loop flag todo sg = Some y"
      show "P flag todo sg y"
      proof (cases "todo = 0")
        case True
        with body finished show ?thesis by auto
      next
        case nz: False
        show ?thesis
        proof (cases "todo AND flag = 0")
          case True
          from nz True body have "f (push_bit 1 flag) todo sg = Some y" by simp
          moreover from actual have a: "require_loop (push_bit 1 flag) todo sg = Some y"
            by (simp only: loop_skipped [OF nz True])
          ultimately have "P (push_bit 1 flag) todo sg y" using IH by blast
          with nz True a show ?thesis by (rule skipped)
        next
          case hit: False
          obtain addl err sg' where sw: "require_switch flag sg = (addl, err, sg')"
            by (cases "require_switch flag sg") auto
          show ?thesis
          proof (cases err)
            case (Some e)
            with nz hit sw body have "y = ((flag, Some e), sg')" by simp
            with nz hit sw Some show ?thesis using failed by blast
          next
            case None
            let ?t = "todo AND NOT (flag OR addl)"
            let ?g = "sg'\<lparr>srcState := srcState sg' OR (flag OR addl)\<rparr>"
            from nz hit sw None body have "f (push_bit 1 flag) ?t ?g = Some y" by simp
            moreover from sw None actual have a: "require_loop (push_bit 1 flag) ?t ?g = Some y"
              by (simp only: loop_passed [OF nz hit])
            ultimately have "P (push_bit 1 flag) ?t ?g y" using IH by blast
            with nz hit sw None a show ?thesis using passed by blast
          qed
        qed
      qed
    qed
  qed
  with run show ?thesis by blast
qed

text \<open>The loop returns: the flag visits the 32 bits in turn, and every bit of \<open>todo\<close> it
  has passed is cleared.\<close>

lemma flag_shift: "push_bit 1 (push_bit k 1 :: sourceState) = push_bit (Suc k) 1"
  by (simp add: push_bit_eq_mult mult.commute)

lemma require_loop_returns:
  "k \<le> 32 \<Longrightarrow> take_bit k todo = 0 \<Longrightarrow> \<exists>y. require_loop (push_bit k 1) todo sg = Some y"
proof (induction "32 - k" arbitrary: k todo sg)
  case 0
  then have "k = 32" by simp
  with "0.prems" have "\<forall>m<32. \<not> bit todo m" by (simp only: take_bit_zero_iff)
  then have "todo = 0" by (auto simp: state_eq_iff dest: state_bit_bound)
  then show ?case by (simp only: loop_finished) blast
next
  case (Suc n)
  then have k: "k < 32" and n: "n = 32 - Suc k" by simp_all
  from k have k': "Suc k \<le> 32" by simp
  show ?case
  proof (cases "todo = 0")
    case True
    then show ?thesis by (simp only: loop_finished) blast
  next
    case nz: False
    show ?thesis
    proof (cases "todo AND push_bit k 1 = 0")
      case True
      with k Suc.prems have "take_bit (Suc k) todo = 0"
        unfolding take_bit_zero_iff and_flag_zero_iff by (auto simp: less_Suc_eq)
      with Suc.hyps(1) [OF n k', of todo sg]
      obtain y where "require_loop (push_bit (Suc k) 1) todo sg = Some y" by blast
      then show ?thesis by (simp only: loop_skipped [OF nz True] flag_shift) blast
    next
      case hit: False
      obtain addl err sg' where sw: "require_switch (push_bit k 1) sg = (addl, err, sg')"
        by (cases "require_switch (push_bit k 1 :: sourceState) sg") auto
      show ?thesis
      proof (cases err)
        case (Some e)
        with sw show ?thesis by (simp only: loop_failed [OF nz hit]) blast
      next
        case None
        let ?t = "todo AND NOT (push_bit k 1 OR addl)"
        from k Suc.prems have "take_bit (Suc k) ?t = 0"
          unfolding take_bit_zero_iff
          by (auto simp only: bit_and_iff bit_not_iff bit_or_iff bit_flag_iff less_Suc_eq)
        with Suc.hyps(1) [OF n k', of ?t]
        obtain y where "require_loop (push_bit (Suc k) 1) ?t
            (sg'\<lparr>srcState := srcState sg' OR (push_bit k 1 OR addl)\<rparr>) = Some y" by blast
        with sw None show ?thesis by (simp only: loop_passed [OF nz hit] flag_shift) blast
      qed
    qed
  qed
qed

lemma require_returns: "\<exists>res sg'. require wanted sg = Some (res, sg')"
  using require_loop_returns [of 0 "NOT (srcState sg) AND wanted" sg]
  by (auto simp: require_def)

lemma require_loop_srcState_mono:
  assumes "require_loop flag todo sg = Some y"
  shows "bit (srcState sg) n \<longrightarrow> bit (srcState (snd y)) n"
  using assms
proof (induction rule: require_loop_induct)
  case (finished flag sg)
  show ?case by simp
next
  case (failed flag todo sg addl e sg')
  then show ?case by (simp add: switch_frame)
next
  case (passed flag todo sg addl sg' y)
  from passed(3) have "srcState sg' = srcState sg" by (simp add: switch_frame)
  with passed(5) show ?case by (simp add: bit_or_iff)
next
  case (skipped flag todo sg y)
  then show ?case by simp
qed

lemma require_srcState_mono:
  "require wanted sg = Some (res, sg') \<Longrightarrow> bit (srcState sg) n \<Longrightarrow> bit (srcState sg') n"
  using require_loop_srcState_mono [of 1 "NOT (srcState sg) AND wanted" sg "(res, sg')" n]
  by (simp add: require_def)

lemma require_loop_success:
  assumes "require_loop flag todo sg = Some y"
  shows "snd (fst y) = None \<longrightarrow> fst (fst y) = 0 \<and> (bit todo n \<longrightarrow> bit (srcState (snd y)) n)"
  using assms
proof (induction rule: require_loop_induct)
  case (finished flag sg)
  show ?case by simp
next
  case (failed flag todo sg addl e sg')
  show ?case by simp
next
  case (passed flag todo sg addl sg' y)
  let ?g = "sg'\<lparr>srcState := srcState sg' OR (flag OR addl)\<rparr>"
  from require_loop_srcState_mono [OF passed(4), of n]
  have "bit (flag OR addl) n \<longrightarrow> bit (srcState (snd y)) n" by (simp add: bit_or_iff)
  with passed(5) show ?case
    by (auto simp: bit_and_iff bit_not_iff bit_or_iff dest: state_bit_bound)
next
  case (skipped flag todo sg y)
  then show ?case by simp
qed

lemma require_success:
  assumes "require wanted sg = Some ((es, None), sg')"
  shows "es = 0" and "bit wanted n \<Longrightarrow> bit (srcState sg') n"
proof -
  from assms have run: "require_loop 1 (NOT (srcState sg) AND wanted) sg = Some ((es, None), sg')"
    by (simp add: require_def)
  from require_loop_success [OF run, of n]
  have *: "es = 0" "bit (NOT (srcState sg) AND wanted) n \<longrightarrow> bit (srcState sg') n" by simp_all
  show "es = 0" by (rule *)
  assume w: "bit wanted n"
  show "bit (srcState sg') n"
  proof (cases "bit (srcState sg) n")
    case True
    with assms show ?thesis by (simp add: require_srcState_mono)
  next
    case False
    from w have "n < 32" by (rule state_bit_bound)
    with False w * show ?thesis by (simp add: bit_and_iff bit_not_iff)
  qed
qed


lemma switch_calls:
  "require_switch flag sg = (addl, err, sg') \<Longrightarrow>
     \<exists>cs. calls sg' = calls sg @ cs \<and>
          set cs \<subseteq> {ctSourcePing, ctSourceInit, ctListVersions, ctSourceFetch}"
  unfolding require_switch_def suprvsr_do_def
  by (auto split: if_splits option.splits prod.splits sum.splits simp: Let_def)

lemma switch_addl:
  "require_switch flag sg = (addl, None, sg') \<Longrightarrow>
     (if flag = sourceIsSetUp then addl = probe_reported sg
      else addl = 0 \<or> addl = sourceHasLatestLocally)"
  unfolding require_switch_def suprvsr_do_def probe_reported_def
  by (auto split: if_splits option.splits prod.splits sum.splits simp: Let_def)

lemma require_loop_calls:
  assumes "require_loop flag todo sg = Some y"
  shows "\<exists>cs. calls (snd y) = calls sg @ cs \<and>
           set cs \<subseteq> {ctSourcePing, ctSourceInit, ctListVersions, ctSourceFetch}"
  using assms
proof (induction rule: require_loop_induct)
  case (finished flag sg)
  show ?case by simp
next
  case (failed flag todo sg addl e sg')
  then show ?case using switch_calls [of flag sg addl "Some e" sg'] by simp
next
  case (passed flag todo sg addl sg' y)
  from switch_calls [OF passed(3)] obtain cs1 where
    1: "calls sg' = calls sg @ cs1" "set cs1 \<subseteq> {ctSourcePing, ctSourceInit, ctListVersions, ctSourceFetch}"
    by blast
  from passed(5) obtain cs2 where
    2: "calls (snd y) = calls sg' @ cs2" "set cs2 \<subseteq> {ctSourcePing, ctSourceInit, ctListVersions, ctSourceFetch}"
    by auto
  from 1 2 have "calls (snd y) = calls sg @ (cs1 @ cs2)"
    "set (cs1 @ cs2) \<subseteq> {ctSourcePing, ctSourceInit, ctListVersions, ctSourceFetch}" by auto
  then show ?case by blast
next
  case (skipped flag todo sg y)
  then show ?case by simp
qed

lemma require_calls:
  "require wanted sg = Some (res, sg') \<Longrightarrow>
     \<exists>cs. calls sg' = calls sg @ cs \<and>
          set cs \<subseteq> {ctSourcePing, ctSourceInit, ctListVersions, ctSourceFetch}"
  using require_loop_calls [of 1 "NOT (srcState sg) AND wanted" sg "(res, sg')"]
  by (simp add: require_def)




lemma todo_disjoint_step:
  "(todo :: sourceState) AND st = 0 \<Longrightarrow> (todo AND NOT c) AND (st OR c) = 0"
  by (auto simp: state_eq_iff bit_and_iff bit_or_iff bit_not_iff)

lemma take_bit_Suc_cleared:
  "take_bit j (todo :: sourceState) = 0 \<Longrightarrow> take_bit (Suc j) (todo AND NOT (push_bit j 1 OR addl)) = 0"
  unfolding take_bit_zero_iff
  by (auto simp: bit_and_iff bit_not_iff bit_or_iff bit_flag_iff less_Suc_eq
      simp del: push_bit_of_1 dest: state_bit_bound)

lemma take_bit_Suc_skipped:
  "take_bit j (todo :: sourceState) = 0 \<Longrightarrow> todo AND push_bit j 1 = 0 \<Longrightarrow> take_bit (Suc j) todo = 0"
  unfolding take_bit_zero_iff and_flag_zero_iff
  by (auto simp: less_Suc_eq dest: state_bit_bound)

lemma flag_hit: "(todo :: sourceState) AND push_bit j 1 \<noteq> 0 \<Longrightarrow> j < 32 \<and> bit todo j"
  using and_flag_zero_iff [of todo j] by blast

lemma disjoint_bit: "(todo :: sourceState) AND st = 0 \<Longrightarrow> bit todo n \<Longrightarrow> \<not> bit st n"
  by (auto simp: state_eq_iff bit_and_iff)

lemma flag_is_set_up: "push_bit j 1 = sourceIsSetUp \<Longrightarrow> j = 0"
  using bit_flag_iff [of j 0] by (simp add: sourceIsSetUp_def)


lemma require_loop_failure:
  assumes "require_loop flag todo sg = Some y"
  shows "\<forall>j. y = ((f, Some e), sg') \<and> flag = push_bit j 1 \<and> take_bit j todo = 0 \<and>
              todo AND srcState sg = 0 \<longrightarrow> (\<exists>k. failure_shape j todo sg f e sg' k)"
  using assms
proof (induction rule: require_loop_induct)
  case (finished flag sg)
  show ?case by simp
next
  case (failed flag todo sg addl e0 sg0)
  show ?case
  proof (intro allI impI, elim conjE)
    fix j
    assume y: "((flag, Some e0), sg0) = ((f, Some e), sg')" and fl: "flag = push_bit j 1"
      and low: "take_bit j todo = 0" and dis: "todo AND srcState sg = 0"
    from failed(2) have j: "j < 32" "bit todo j" unfolding fl by (auto dest: flag_hit simp del: push_bit_of_1)
    from failed(3) have st: "srcState sg0 = srcState sg" by (simp add: switch_frame)
    from dis j have "\<not> bit (srcState sg) j" by (auto dest: disjoint_bit)
    moreover from low have "\<forall>n<j. \<not> bit todo n" by (simp only: take_bit_zero_iff)
    ultimately have "failure_shape j todo sg f e sg' j"
      unfolding failure_shape_def using y fl j st failed(3) by auto
    then show "\<exists>k. failure_shape j todo sg f e sg' k" ..
  qed
next
  case (passed flag todo sg addl sg1 y)
  let ?c = "flag OR addl"
  let ?t = "todo AND NOT ?c"
  let ?g = "sg1\<lparr>srcState := srcState sg1 OR ?c\<rparr>"
  show ?case
  proof (intro allI impI, elim conjE)
    fix j
    assume y: "y = ((f, Some e), sg')" and fl: "flag = push_bit j 1"
      and low: "take_bit j todo = 0" and dis: "todo AND srcState sg = 0"
    from passed(2) have j: "j < 32" "bit todo j" unfolding fl by (auto dest: flag_hit simp del: push_bit_of_1)
    from passed(3) have st: "srcState sg1 = srcState sg" by (simp add: switch_frame)
    have fl': "push_bit 1 flag = push_bit (Suc j) 1" by (simp only: fl flag_shift)
    from low have low': "take_bit (Suc j) ?t = 0" by (simp only: fl take_bit_Suc_cleared)
    have "srcState ?g = srcState sg OR ?c" by (simp add: st)
    with dis have dis': "?t AND srcState ?g = 0" by (simp only: todo_disjoint_step)
    from passed(5) y fl' low' dis' obtain k where k: "failure_shape (Suc j) ?t ?g f e sg' k"
      by blast
    from switch_addl [OF passed(3)]
    have addl: "\<And>n. bit addl n \<Longrightarrow>
        bit sourceHasLatestLocally n \<or> (j = 0 \<and> bit (probe_reported sg) n)"
      using fl by (auto simp del: push_bit_of_1 dest: flag_is_set_up split: if_splits)
    have kept: "\<And>n. bit (srcState ?g) n \<Longrightarrow> bit (srcState sg') n"
      using require_loop_srcState_mono [OF passed(4)] y by simp
    have "failure_shape j todo sg f e sg' k"
      unfolding failure_shape_def
    proof (intro conjI allI impI)
      from k show "j \<le> k" "k < 32" "f = push_bit k 1" "\<not> bit (srcState sg') k"
        "\<exists>sgk addl. require_switch f sgk = (addl, Some e, sg')"
        by (auto simp: failure_shape_def)
      from k show "bit todo k" by (auto simp: failure_shape_def bit_and_iff)
    next
      fix n assume n: "n < k" "bit todo n"
      show "bit (srcState sg') n"
      proof (cases "bit ?c n")
        case True
        then have "bit (srcState ?g) n" by (simp add: bit_or_iff)
        then show ?thesis by (rule kept)
      next
        case False
        then have "\<not> bit flag n" "\<not> bit addl n" by (simp_all add: bit_or_iff)
        with n have "bit ?t n" by (auto simp: bit_and_iff bit_not_iff bit_or_iff dest: state_bit_bound)
        with k n show ?thesis by (auto simp: failure_shape_def)
      qed
    next
      fix n assume n: "bit (srcState sg') n"
      from k have jk: "Suc j \<le> k" by (simp add: failure_shape_def)
      from k n have "bit (srcState ?g) n \<or> (n < k \<and> bit ?t n) \<or> bit sourceHasLatestLocally n"
        by (auto simp: failure_shape_def)
      then consider "bit (srcState sg) n" | "bit flag n" | "bit addl n" | "n < k \<and> bit todo n"
        | "bit sourceHasLatestLocally n"
        by (auto simp: st bit_or_iff bit_and_iff)
      then show "bit (srcState sg) n \<or> (n < k \<and> bit todo n) \<or> bit sourceHasLatestLocally n \<or>
          (j = 0 \<and> bit todo 0 \<and> bit (probe_reported sg) n)"
      proof cases
        case 2
        with fl have "n = j" by (simp add: bit_flag_iff')
        with j jk show ?thesis by simp
      next
        case 3
        from addl [OF 3] j show ?thesis by auto
      qed auto
    qed
    then show "\<exists>k. failure_shape j todo sg f e sg' k" ..
  qed
next
  case (skipped flag todo sg y)
  show ?case
  proof (intro allI impI, elim conjE)
    fix j
    assume y: "y = ((f, Some e), sg')" and fl: "flag = push_bit j 1"
      and low: "take_bit j todo = 0" and dis: "todo AND srcState sg = 0"
    have fl': "push_bit 1 flag = push_bit (Suc j) 1" by (simp only: fl flag_shift)
    from low skipped(2) have low': "take_bit (Suc j) todo = 0"
      by (simp only: fl take_bit_Suc_skipped)
    from skipped(4) y fl' low' dis obtain k where k: "failure_shape (Suc j) todo sg f e sg' k"
      by blast
    then have "failure_shape j todo sg f e sg' k"
      unfolding failure_shape_def by auto
    then show "\<exists>k. failure_shape j todo sg f e sg' k" ..
  qed
qed

subsection \<open>The steps that a run of require has taken\<close>

text \<open>
  A run that fails at bit \<open>k\<close> has first done what a run for the bits below \<open>k\<close> does,
  which succeeds, and then the step of bit \<open>k\<close>.
\<close>

lemma take_bit_and_not: "take_bit k (t :: sourceState) AND NOT c = take_bit k (t AND NOT c)"
  by (rule bit_word_eqI) (auto simp: bit_take_bit_iff bit_and_iff bit_not_iff)

lemma take_bit_flag_hit:
  "j < k \<Longrightarrow> (todo :: sourceState) AND push_bit j 1 \<noteq> 0 \<Longrightarrow> take_bit k todo AND push_bit j 1 \<noteq> 0"
  unfolding and_flag_zero_iff by (auto simp: bit_take_bit_iff)

lemma take_bit_flag_miss:
  "(todo :: sourceState) AND push_bit j 1 = 0 \<Longrightarrow> take_bit k todo AND push_bit j 1 = 0"
  unfolding and_flag_zero_iff by (auto simp: bit_take_bit_iff)

lemma take_bit_nonzero:
  "j < k \<Longrightarrow> (todo :: sourceState) AND push_bit j 1 \<noteq> 0 \<Longrightarrow> take_bit k todo \<noteq> 0"
  using take_bit_flag_hit [of j k todo] by auto

lemma require_loop_failure_prefix:
  assumes "require_loop flag todo sg = Some y"
  shows "\<forall>j. y = ((f, Some e), sg') \<and> flag = push_bit j 1 \<and> take_bit j todo = 0 \<longrightarrow>
           (\<exists>k sgk addl. j \<le> k \<and> k < 32 \<and> f = push_bit k 1 \<and> bit todo k \<and>
              require_loop flag (take_bit k todo) sg = Some ((0, None), sgk) \<and>
              require_switch f sgk = (addl, Some e, sg'))"
  using assms
proof (induction rule: require_loop_induct)
  case (finished flag sg)
  show ?case by simp
next
  case (failed flag todo sg addl e0 sg0)
  show ?case
  proof (intro allI impI, elim conjE)
    fix j
    assume y: "((flag, Some e0), sg0) = ((f, Some e), sg')" and fl: "flag = push_bit j 1"
      and low: "take_bit j todo = 0"
    from failed(2) have j: "j < 32" "bit todo j"
      unfolding fl by (auto dest: flag_hit simp del: push_bit_of_1)
    from low have "require_loop flag (take_bit j todo) sg = Some ((0, None), sg)"
      by (simp only: loop_finished)
    moreover from y failed(3) have "require_switch f sg = (addl, Some e, sg')" by simp
    moreover from y fl have "f = push_bit j 1" by simp
    ultimately show "\<exists>k sgk addl. j \<le> k \<and> k < 32 \<and> f = push_bit k 1 \<and> bit todo k \<and>
              require_loop flag (take_bit k todo) sg = Some ((0, None), sgk) \<and>
              require_switch f sgk = (addl, Some e, sg')"
      using j by blast
  qed
next
  case (passed flag todo sg addl sg1 y)
  let ?c = "flag OR addl"
  let ?t = "todo AND NOT ?c"
  let ?g = "sg1\<lparr>srcState := srcState sg1 OR ?c\<rparr>"
  show ?case
  proof (intro allI impI, elim conjE)
    fix j
    assume y: "y = ((f, Some e), sg')" and fl: "flag = push_bit j 1"
      and low: "take_bit j todo = 0"
    have fl': "push_bit 1 flag = push_bit (Suc j) 1" by (simp only: fl flag_shift)
    from low have low': "take_bit (Suc j) ?t = 0" by (simp only: fl take_bit_Suc_cleared)
    from passed(5) y fl' low' obtain k sgk a where k: "Suc j \<le> k" "k < 32" "f = push_bit k 1"
      "bit ?t k" "require_loop (push_bit 1 flag) (take_bit k ?t) ?g = Some ((0, None), sgk)"
      "require_switch f sgk = (a, Some e, sg')"
      by blast
    from k(1) have jk: "j < k" by simp
    from passed(2) have hit0: "todo AND push_bit j 1 \<noteq> 0" unfolding fl .
    from jk hit0 have nz: "take_bit k todo \<noteq> 0" by (rule take_bit_nonzero)
    from jk hit0 have hit: "take_bit k todo AND flag \<noteq> 0" unfolding fl by (rule take_bit_flag_hit)
    have "require_loop flag (take_bit k todo) sg =
        require_loop (push_bit 1 flag) (take_bit k todo AND NOT ?c) ?g"
      by (rule loop_passed [OF nz hit passed(3)])
    also have "\<dots> = Some ((0, None), sgk)" using k(5) by (simp only: take_bit_and_not)
    finally have pre: "require_loop flag (take_bit k todo) sg = Some ((0, None), sgk)" .
    from k(4) have "bit todo k" by (simp add: bit_and_iff)
    moreover from jk have "j \<le> k" by simp
    ultimately show "\<exists>k sgk addl. j \<le> k \<and> k < 32 \<and> f = push_bit k 1 \<and> bit todo k \<and>
              require_loop flag (take_bit k todo) sg = Some ((0, None), sgk) \<and>
              require_switch f sgk = (addl, Some e, sg')"
      using pre k(2,3,6) by blast
  qed
next
  case (skipped flag todo sg y)
  show ?case
  proof (intro allI impI, elim conjE)
    fix j
    assume y: "y = ((f, Some e), sg')" and fl: "flag = push_bit j 1"
      and low: "take_bit j todo = 0"
    have fl': "push_bit 1 flag = push_bit (Suc j) 1" by (simp only: fl flag_shift)
    from low skipped(2) have low': "take_bit (Suc j) todo = 0"
      by (simp only: fl take_bit_Suc_skipped)
    from skipped(4) y fl' low' obtain k sgk a where k: "Suc j \<le> k" "k < 32" "f = push_bit k 1"
      "bit todo k" "require_loop (push_bit 1 flag) (take_bit k todo) sg = Some ((0, None), sgk)"
      "require_switch f sgk = (a, Some e, sg')"
      by blast
    have pre: "require_loop flag (take_bit k todo) sg = Some ((0, None), sgk)"
    proof (cases "take_bit k todo = 0")
      case True
      with k(5) show ?thesis by (simp only: loop_finished)
    next
      case False
      from skipped(2) have m: "take_bit k todo AND flag = 0" unfolding fl by (rule take_bit_flag_miss)
      from k(5) show ?thesis by (simp only: loop_skipped [OF False m])
    qed
    moreover from k(1) have "j \<le> k" by simp
    ultimately show "\<exists>k sgk addl. j \<le> k \<and> k < 32 \<and> f = push_bit k 1 \<and> bit todo k \<and>
              require_loop flag (take_bit k todo) sg = Some ((0, None), sgk) \<and>
              require_switch f sgk = (addl, Some e, sg')"
      using k(2,3,4,6) by blast
  qed
qed

text \<open>A run that succeeds can be cut at any bit \<open>k\<close>: the run for the bits below \<open>k\<close>
  succeeds, and the loop goes on from bit \<open>k\<close> with what is wanted and not yet set.\<close>

lemma and_not_absorb:
  "(\<And>n. bit c n \<Longrightarrow> bit (st :: sourceState) n) \<Longrightarrow> (t AND NOT c) AND NOT st = t AND NOT st"
  by (rule bit_word_eqI) (auto simp: bit_and_iff bit_not_iff)

lemma disjoint_and_not: "(t :: sourceState) AND st = 0 \<Longrightarrow> t AND NOT st = t"
  by (rule bit_word_eqI) (auto simp: bit_and_iff bit_not_iff dest: disjoint_bit)

lemma require_loop_split:
  assumes "require_loop flag todo sg = Some y"
  shows "\<forall>j. snd (fst y) = None \<and> flag = push_bit j 1 \<and> take_bit j todo = 0 \<and>
              todo AND srcState sg = 0 \<and> j \<le> k \<longrightarrow>
           (\<exists>sgk. require_loop flag (take_bit k todo) sg = Some ((0, None), sgk) \<and>
                  require_loop (push_bit k 1) (todo AND NOT (srcState sgk)) sgk = Some y)"
  using assms
proof (induction rule: require_loop_induct)
  case (finished flag sg)
  have "require_loop flag (take_bit k 0) sg = Some ((0, None), sg)"
    "require_loop (push_bit k 1) (0 AND NOT (srcState sg)) sg = Some ((0, None), sg)"
    by (simp_all only: take_bit_of_0 and.left_neutral and_zero_eq zero_and_eq loop_finished)
  then show ?case by blast
next
  case (failed flag todo sg addl e0 sg0)
  show ?case by simp
next
  case (passed flag todo sg addl sg1 y)
  let ?c = "flag OR addl"
  let ?t = "todo AND NOT ?c"
  let ?g = "sg1\<lparr>srcState := srcState sg1 OR ?c\<rparr>"
  from passed(3) have st: "srcState sg1 = srcState sg" by (simp add: switch_frame)
  have whole: "require_loop flag todo sg = Some y"
    using passed(4) by (simp only: loop_passed [OF passed(1,2,3)])
  show ?case
  proof (intro allI impI, elim conjE)
    fix j
    assume ok: "snd (fst y) = None" and fl: "flag = push_bit j 1"
      and low: "take_bit j todo = 0" and dis: "todo AND srcState sg = 0" and jk: "j \<le> k"
    show "\<exists>sgk. require_loop flag (take_bit k todo) sg = Some ((0, None), sgk) \<and>
                require_loop (push_bit k 1) (todo AND NOT (srcState sgk)) sgk = Some y"
    proof (cases "j = k")
      case True
      from low True have "require_loop flag (take_bit k todo) sg = Some ((0, None), sg)"
        by (simp only: loop_finished)
      moreover from whole dis have "require_loop (push_bit k 1) (todo AND NOT (srcState sg)) sg = Some y"
        unfolding fl True by (simp only: disjoint_and_not)
      ultimately show ?thesis by blast
    next
      case False
      with jk have lt: "j < k" and sk: "Suc j \<le> k" by simp_all
      have fl': "push_bit 1 flag = push_bit (Suc j) 1" by (simp only: fl flag_shift)
      from low have low': "take_bit (Suc j) ?t = 0" by (simp only: fl take_bit_Suc_cleared)
      have "srcState ?g = srcState sg OR ?c" by (simp add: st)
      with dis have dis': "?t AND srcState ?g = 0" by (simp only: todo_disjoint_step)
      from passed(5) ok fl' low' dis' sk obtain sgk where
        pre': "require_loop (push_bit 1 flag) (take_bit k ?t) ?g = Some ((0, None), sgk)"
        and rest': "require_loop (push_bit k 1) (?t AND NOT (srcState sgk)) sgk = Some y"
        by blast
      from passed(2) have hit0: "todo AND push_bit j 1 \<noteq> 0" unfolding fl .
      from lt hit0 have nz: "take_bit k todo \<noteq> 0" by (rule take_bit_nonzero)
      from lt hit0 have hit: "take_bit k todo AND flag \<noteq> 0" unfolding fl by (rule take_bit_flag_hit)
      have "require_loop flag (take_bit k todo) sg =
          require_loop (push_bit 1 flag) (take_bit k todo AND NOT ?c) ?g"
        by (rule loop_passed [OF nz hit passed(3)])
      also have "\<dots> = Some ((0, None), sgk)" using pre' by (simp only: take_bit_and_not)
      finally have pre: "require_loop flag (take_bit k todo) sg = Some ((0, None), sgk)" .
      have "\<And>n. bit ?c n \<Longrightarrow> bit (srcState sgk) n"
        using require_loop_srcState_mono [OF pre'] by (auto simp: bit_or_iff)
      then have "?t AND NOT (srcState sgk) = todo AND NOT (srcState sgk)"
        by (rule and_not_absorb)
      with rest' have "require_loop (push_bit k 1) (todo AND NOT (srcState sgk)) sgk = Some y"
        by (simp only:)
      with pre show ?thesis by blast
    qed
  qed
next
  case (skipped flag todo sg y)
  have whole: "require_loop flag todo sg = Some y"
    using skipped(3) by (simp only: loop_skipped [OF skipped(1,2)])
  show ?case
  proof (intro allI impI, elim conjE)
    fix j
    assume ok: "snd (fst y) = None" and fl: "flag = push_bit j 1"
      and low: "take_bit j todo = 0" and dis: "todo AND srcState sg = 0" and jk: "j \<le> k"
    show "\<exists>sgk. require_loop flag (take_bit k todo) sg = Some ((0, None), sgk) \<and>
                require_loop (push_bit k 1) (todo AND NOT (srcState sgk)) sgk = Some y"
    proof (cases "j = k")
      case True
      from low True have "require_loop flag (take_bit k todo) sg = Some ((0, None), sg)"
        by (simp only: loop_finished)
      moreover from whole dis have "require_loop (push_bit k 1) (todo AND NOT (srcState sg)) sg = Some y"
        unfolding fl True by (simp only: disjoint_and_not)
      ultimately show ?thesis by blast
    next
      case False
      with jk have sk: "Suc j \<le> k" by simp
      have fl': "push_bit 1 flag = push_bit (Suc j) 1" by (simp only: fl flag_shift)
      from low skipped(2) have low': "take_bit (Suc j) todo = 0"
        by (simp only: fl take_bit_Suc_skipped)
      from skipped(4) ok fl' low' dis sk obtain sgk where
        pre': "require_loop (push_bit 1 flag) (take_bit k todo) sg = Some ((0, None), sgk)"
        and rest: "require_loop (push_bit k 1) (todo AND NOT (srcState sgk)) sgk = Some y"
        by blast
      have pre: "require_loop flag (take_bit k todo) sg = Some ((0, None), sgk)"
      proof (cases "take_bit k todo = 0")
        case True
        with pre' show ?thesis by (simp only: loop_finished)
      next
        case False
        from skipped(2) have m: "take_bit k todo AND flag = 0"
          unfolding fl by (rule take_bit_flag_miss)
        from pre' show ?thesis by (simp only: loop_skipped [OF False m])
      qed
      with rest show ?thesis by blast
    qed
  qed
qed

lemma not_and_take_bit:
  "NOT (st :: sourceState) AND take_bit k w = take_bit k (NOT st AND w)"
  by (rule bit_word_eqI) (auto simp: bit_take_bit_iff bit_and_iff bit_not_iff)

lemma wanted_and_not:
  "(\<And>n. bit st n \<Longrightarrow> bit (st' :: sourceState) n) \<Longrightarrow> (NOT st AND w) AND NOT st' = NOT st' AND w"
  by (rule bit_word_eqI) (auto simp: bit_and_iff bit_not_iff)

lemma require_split:
  assumes "require wanted sg = Some ((es, None), sg')"
  shows "\<exists>sgk. require (take_bit k wanted) sg = Some ((0, None), sgk) \<and>
           require_loop (push_bit k 1) (NOT (srcState sgk) AND wanted) sgk = Some ((es, None), sg')"
proof -
  let ?todo = "NOT (srcState sg) AND wanted"
  from assms have run: "require_loop (push_bit 0 1) ?todo sg = Some ((es, None), sg')"
    by (simp add: require_def)
  have dis: "?todo AND srcState sg = 0"
    by (auto simp: state_eq_iff bit_and_iff bit_not_iff)
  from require_loop_split [OF run, of k]
  have "snd (fst (((es, None), sg') :: (sourceState \<times> error option) \<times> 'a sourceGateway)) = None \<and>
        (push_bit 0 1 :: sourceState) = push_bit 0 1 \<and> take_bit 0 ?todo = 0 \<and>
        ?todo AND srcState sg = 0 \<and> 0 \<le> k \<longrightarrow>
        (\<exists>sgk. require_loop (push_bit 0 1) (take_bit k ?todo) sg = Some ((0, None), sgk) \<and>
           require_loop (push_bit k 1) (?todo AND NOT (srcState sgk)) sgk = Some ((es, None), sg'))"
    by blast
  with dis obtain sgk where
    pre: "require_loop (push_bit 0 1) (take_bit k ?todo) sg = Some ((0, None), sgk)"
    and rest: "require_loop (push_bit k 1) (?todo AND NOT (srcState sgk)) sgk = Some ((es, None), sg')"
    by (auto simp del: push_bit_of_1)
  from pre have pre': "require (take_bit k wanted) sg = Some ((0, None), sgk)"
    by (simp add: require_def not_and_take_bit)
  have "\<And>n. bit (srcState sg) n \<Longrightarrow> bit (srcState sgk) n"
    using require_srcState_mono [OF pre'] .
  then have "?todo AND NOT (srcState sgk) = NOT (srcState sgk) AND wanted"
    by (rule wanted_and_not)
  with rest pre' show ?thesis by (simp only:) blast
qed

lemma require_failure_prefix:
  assumes "require wanted sg = Some ((f, Some e), sg')"
  shows "\<exists>k sgk addl. k < 32 \<and> f = push_bit k 1 \<and> bit wanted k \<and> \<not> bit (srcState sg) k \<and>
           require (take_bit k wanted) sg = Some ((0, None), sgk) \<and>
           require_switch f sgk = (addl, Some e, sg')"
proof -
  let ?todo = "NOT (srcState sg) AND wanted"
  from assms have run: "require_loop (push_bit 0 1) ?todo sg = Some ((f, Some e), sg')"
    by (simp add: require_def)
  from require_loop_failure_prefix [OF run, of f e sg']
  have "((f, Some e), sg') = ((f, Some e), sg') \<and> (push_bit 0 1 :: sourceState) = push_bit 0 1 \<and>
        take_bit 0 ?todo = 0 \<longrightarrow>
        (\<exists>k sgk addl. 0 \<le> k \<and> k < 32 \<and> f = push_bit k 1 \<and> bit ?todo k \<and>
              require_loop (push_bit 0 1) (take_bit k ?todo) sg = Some ((0, None), sgk) \<and>
              require_switch f sgk = (addl, Some e, sg'))"
    by blast
  then obtain k sgk addl where
    k: "k < 32" "f = push_bit k 1" "bit ?todo k"
    "require_loop (push_bit 0 1) (take_bit k ?todo) sg = Some ((0, None), sgk)"
    "require_switch f sgk = (addl, Some e, sg')"
    by (auto simp del: push_bit_of_1)
  from k(4) have "require (take_bit k wanted) sg = Some ((0, None), sgk)"
    by (simp add: require_def not_and_take_bit)
  moreover from k(3) have "bit wanted k" "\<not> bit (srcState sg) k"
    by (auto simp: bit_and_iff bit_not_iff)
  ultimately show ?thesis using k(1,2,5) by blast
qed

text \<open>What a step reports, and the last step of a run.\<close>

lemma switch_report:
  "require_switch flag sg = (addl, None, sg') \<Longrightarrow>
     addl = (if flag = sourceIsSetUp then probe_reported sg
             else if flag = sourceExistsLocally then
               (case src sg of
                  Some s \<Rightarrow> if src_existsLocally s (world sg) then 0 else sourceHasLatestLocally
                | None \<Rightarrow> 0)
             else 0)"
  unfolding require_switch_def suprvsr_do_def probe_reported_def
  by (auto split: if_splits option.splits prod.splits sum.splits simp: Let_def state_bits)

lemma require_nothing: "require 0 sg = Some ((0, None), sg)"
  by (simp add: require_def loop_finished)

lemma loop_last_step:
  assumes run: "require_loop (push_bit k 1) t sg = Some ((es, None), sg')"
    and only: "\<And>n. bit t n \<Longrightarrow> n = k"
  shows "(t = 0 \<and> sg' = sg) \<or>
         (bit t k \<and> (\<exists>addl sg1. require_switch (push_bit k 1) sg = (addl, None, sg1) \<and>
                         sg' = sg1\<lparr>srcState := srcState sg OR (push_bit k 1 OR addl)\<rparr>))"
proof (cases "t = 0")
  case True
  with run have "sg' = sg" by (simp only: loop_finished) simp
  with True show ?thesis by simp
next
  case nz: False
  then obtain n where "bit t n" by (auto simp: state_eq_iff)
  with only have k: "bit t k" by blast
  then have k32: "k < 32" by (rule state_bit_bound)
  with k have hit: "t AND push_bit k 1 \<noteq> 0" by (simp only: and_flag_zero_iff) simp
  obtain addl err sg1 where sw: "require_switch (push_bit k 1) sg = (addl, err, sg1)"
    by (cases "require_switch (push_bit k 1 :: sourceState) sg") auto
  show ?thesis
  proof (cases err)
    case (Some e0)
    with run sw show ?thesis by (simp only: loop_failed [OF nz hit]) simp
  next
    case None
    have "t AND NOT (push_bit k 1 OR addl) = 0"
      using only by (auto simp: state_eq_iff bit_and_iff bit_not_iff bit_or_iff bit_flag_iff
          simp del: push_bit_of_1 dest: state_bit_bound)
    with run sw None have "sg' = sg1\<lparr>srcState := srcState sg1 OR (push_bit k 1 OR addl)\<rparr>"
      by (simp only: loop_passed [OF nz hit] loop_finished) simp
    moreover from sw have "srcState sg1 = srcState sg" by (simp add: switch_frame)
    ultimately show ?thesis using k sw None by auto
  qed
qed

lemma grow_state_skip:
  "(s :: sourceState) = a OR take_bit k w OR r \<Longrightarrow> (bit w k \<Longrightarrow> bit s k)
     \<Longrightarrow> s = a OR take_bit (Suc k) w OR r"
  by (auto simp: state_eq_iff bit_or_iff bit_take_bit_iff less_Suc_eq)

lemma grow_state_step:
  "(s :: sourceState) = a OR take_bit k w OR r \<Longrightarrow> bit w k
     \<Longrightarrow> s OR (push_bit k 1 OR addl) = a OR take_bit (Suc k) w OR (r OR addl)"
  by (auto simp: state_eq_iff bit_or_iff bit_take_bit_iff less_Suc_eq bit_flag_iff
      simp del: push_bit_of_1 dest: state_bit_bound)

lemma flag_is_exists_locally: "push_bit j 1 = sourceExistsLocally \<Longrightarrow> j = 2"
  using bit_flag_iff [of j 2] by (simp add: sourceExistsLocally_def)

lemma reported_by_probe_Suc:
  "k \<noteq> 0 \<Longrightarrow> reported_by_probe (Suc k) wanted sg = reported_by_probe k wanted sg"
  by (simp add: reported_by_probe_def)

lemma reported_by_init_Suc:
  "k \<noteq> 2 \<Longrightarrow> reported_by_init (Suc k) wanted sg = reported_by_init k wanted sg"
  by (cases "k = 0") (auto simp: reported_by_init_def reported_by_probe_def)

lemma reported_by_init_low: "k \<le> 2 \<Longrightarrow> reported_by_init k wanted sg = 0"
  by (simp add: reported_by_init_def)

text \<open>The state after the steps below bit \<open>k\<close>: the bits set before, the wanted bits below
  \<open>k\<close>, and what the steps have reported.\<close>

lemma prefix_state:
  "require (take_bit k wanted) sg = Some ((es, None), sgk) \<Longrightarrow>
     srcState sgk = srcState sg OR take_bit k wanted OR
       reported_by_probe k wanted sg OR reported_by_init k wanted sg"
proof (induction k arbitrary: es sgk)
  case 0
  then have "sgk = sg" by (simp add: require_nothing)
  then show ?case by (simp add: reported_by_probe_def reported_by_init_def)
next
  case (Suc k)
  let ?w = "take_bit (Suc k) wanted"
  let ?P = "\<lambda>k. reported_by_probe k wanted sg"
  let ?I = "\<lambda>k. reported_by_init k wanted sg"
  from require_split [OF Suc.prems, of k] obtain sgm where
    pre: "require (take_bit k ?w) sg = Some ((0, None), sgm)" and
    rest: "require_loop (push_bit k 1) (NOT (srcState sgm) AND ?w) sgm = Some ((es, None), sgk)"
    by blast
  have tk: "take_bit k ?w = take_bit k wanted" by (simp add: min_def)
  from pre have pre': "require (take_bit k wanted) sg = Some ((0, None), sgm)" by (simp only: tk)
  note IH = Suc.IH [OF pre']
  let ?t = "NOT (srcState sgm) AND ?w"
  have low: "\<And>n. n < k \<Longrightarrow> bit wanted n \<Longrightarrow> bit (srcState sgm) n"
    using require_success(2) [OF pre'] by (simp add: bit_take_bit_iff)
  have only: "\<And>n. bit ?t n \<Longrightarrow> n = k"
    using low by (auto simp: bit_and_iff bit_not_iff bit_take_bit_iff less_Suc_eq)
  have tbit: "bit ?t k \<longleftrightarrow> bit wanted k \<and> \<not> bit (srcState sgm) k"
    by (auto simp: bit_and_iff bit_not_iff bit_take_bit_iff dest: state_bit_bound)
  have k0: "sgm = sg" if "k = 0"
    using pre' that by (simp add: require_nothing)
  have k2: "no_local_copy wanted sg \<longleftrightarrow>
      (case src sgm of Some s \<Rightarrow> \<not> src_existsLocally s (world sgm) | None \<Rightarrow> False)" if "k = 2"
    using pre' that by (simp add: no_local_copy_def)
  have bit2: "bit (srcState sgm) 2 \<longleftrightarrow> bit (srcState sg) 2 \<or> bit (?P 2) 2" if "k = 2"
    unfolding IH using that
    by (simp add: bit_or_iff bit_take_bit_iff reported_by_init_low)
  from loop_last_step [OF rest only]
  consider (skip) "?t = 0" "sgk = sgm"
    | (step) addl sg1 where "bit ?t k" "require_switch (push_bit k 1) sgm = (addl, None, sg1)"
        "sgk = sg1\<lparr>srcState := srcState sgm OR (push_bit k 1 OR addl)\<rparr>"
    by blast
  then show ?case
  proof cases
    case skip
    from skip(1) have "\<not> bit ?t k" by simp
    then have nb: "bit wanted k \<Longrightarrow> bit (srcState sgm) k" by (simp only: tbit) blast
    have r: "?P (Suc k) OR ?I (Suc k) = ?P k OR ?I k"
    proof -
      consider "k = 0" | "k = 2" | "k \<noteq> 0" "k \<noteq> 2" by blast
      then show ?thesis
      proof cases
        case 1
        with nb k0 show ?thesis
          by (auto simp: reported_by_probe_def reported_by_init_def)
      next
        case 2
        with nb bit2 have "bit wanted 2 \<Longrightarrow> bit (srcState sg) 2 \<or> bit (?P 3) 2"
          by (simp add: reported_by_probe_def)
        then have "?I 3 = 0" by (auto simp: reported_by_init_def)
        with 2 show ?thesis
          by (simp add: reported_by_probe_Suc reported_by_init_low numeral_3_eq_3 numeral_2_eq_2)
      next
        case 3
        then show ?thesis by (simp add: reported_by_probe_Suc reported_by_init_Suc)
      qed
    qed
    from grow_state_skip [OF IH nb] have "srcState sgm = srcState sg OR ?w OR ?P k OR ?I k"
      by simp
    with r skip(2) show ?thesis by simp
  next
    case step
    from step(1) have wk: "bit wanted k" and nk: "\<not> bit (srcState sgm) k"
      using tbit by blast+
    from wk have k32: "k < 32" by (rule state_bit_bound)
    note rep = switch_report [OF step(2)]
    have r: "?P (Suc k) OR ?I (Suc k) = (?P k OR ?I k) OR addl"
    proof -
      consider "k = 0" | "k = 2" | "k \<noteq> 0" "k \<noteq> 2" by blast
      then show ?thesis
      proof cases
        case 1
        with rep k0 have "addl = probe_reported sg" by (simp add: sourceIsSetUp_def)
        with 1 wk nk k0 show ?thesis
          by (simp add: reported_by_probe_def reported_by_init_def)
      next
        case 2
        with rep have "addl = (case src sgm of
              Some s \<Rightarrow> if src_existsLocally s (world sgm) then 0 else sourceHasLatestLocally
            | None \<Rightarrow> 0)"
          by (simp add: state_bits)
        with k2 [OF 2] have a: "addl = (if no_local_copy wanted sg then sourceHasLatestLocally else 0)"
          by (simp split: option.splits)
        from nk bit2 2 have "\<not> bit (srcState sg) 2" "\<not> bit (?P 3) 2"
          by (simp_all add: reported_by_probe_def)
        with wk 2 a have "?I 3 = addl" by (simp add: reported_by_init_def)
        with 2 show ?thesis
          by (simp add: reported_by_probe_Suc reported_by_init_low numeral_3_eq_3 numeral_2_eq_2)
      next
        case 3
        from 3 have "push_bit k 1 \<noteq> sourceIsSetUp" "push_bit k 1 \<noteq> sourceExistsLocally"
          by (auto dest: flag_is_set_up flag_is_exists_locally simp del: push_bit_of_1)
        with rep have "addl = 0" by (simp del: push_bit_of_1)
        with 3 show ?thesis by (simp add: reported_by_probe_Suc reported_by_init_Suc)
      qed
    qed
    from step(2) have "srcState sg1 = srcState sgm" by (simp add: switch_frame)
    with step(3) have "srcState sgk = srcState sgm OR (push_bit k 1 OR addl)" by simp
    also from grow_state_step [OF IH wk, of addl]
    have "\<dots> = srcState sg OR ?w OR ((?P k OR ?I k) OR addl)" by simp
    finally show ?thesis by (simp only: r)
  qed
qed

subsection \<open>What a dispatch leaves alone\<close>

lemma suprvsr_do_frame:
  "suprvsr_do ct zero fn sg = (res, sg') \<Longrightarrow>
     cache sg' = cache sg \<and> srcState sg' = srcState sg \<and> src sg' = src sg \<and>
     maybe sg' = maybe sg \<and> suprvsr sg' = suprvsr sg \<and> cachedir sg' = cachedir sg \<and>
     calls sg' = calls sg @ [ct]"
  by (auto simp: suprvsr_do_def Let_def split: option.splits prod.splits)

subsection \<open>The operations return and keep the state bits\<close>

lemma convertToRevision_returns: "\<exists>res sg'. convertToRevision v sg = Some (res, sg')"
  using require_returns [of "sourceIsSetUp OR sourceHasLatestVersionList" sg]
  by (auto simp: convertToRevision_def split: option.splits)

lemma convertToRevision_srcState_mono:
  "convertToRevision v sg = Some (res, sg') \<Longrightarrow> bit (srcState sg) n \<Longrightarrow> bit (srcState sg') n"
  by (auto simp: convertToRevision_def bind_eq_Some_conv
      split: option.splits if_splits dest: require_srcState_mono)

lemma syncLocal_returns: "\<exists>res sg'. syncLocal sg = Some (res, sg')"
  using require_returns [of "sourceIsSetUp OR sourceExistsLocally OR sourceHasLatestLocally" sg]
  by (auto simp: syncLocal_def)

lemma syncLocal_srcState_mono:
  "syncLocal sg = Some (res, sg') \<Longrightarrow> bit (srcState sg) n \<Longrightarrow> bit (srcState sg') n"
  by (auto simp: syncLocal_def bind_eq_Some_conv dest: require_srcState_mono)

lemma checkExistence_returns: "\<exists>res sg'. checkExistence ex sg = Some (res, sg')"
proof -
  obtain r1 sg1 where 1: "require (sourceIsSetUp OR sourceExistsUpstream) sg = Some (r1, sg1)"
    using require_returns by blast
  obtain r2 sg2 where 2: "require (sourceIsSetUp OR sourceExistsLocally) sg1 = Some (r2, sg2)"
    using require_returns by blast
  obtain r3 sg3 where 3: "require (sourceIsSetUp OR sourceExistsLocally) sg = Some (r3, sg3)"
    using require_returns by blast
  from 1 2 3 show ?thesis
    by (cases r1; cases r2; cases r3) (auto simp: checkExistence_def split: option.splits)
qed

lemma checkExistence_srcState_mono:
  "checkExistence ex sg = Some (res, sg') \<Longrightarrow> bit (srcState sg) n \<Longrightarrow> bit (srcState sg') n"
  by (auto simp: checkExistence_def bind_eq_Some_conv
      split: option.splits if_splits dest: require_srcState_mono)

lemma exportVersionTo_returns: "\<exists>res sg'. exportVersionTo v to sg = Some (res, sg')"
proof -
  obtain r1 sg1 where 1: "require (sourceIsSetUp OR sourceExistsLocally) sg = Some (r1, sg1)"
    using require_returns by blast
  obtain r2 sg2 where 2: "convertToRevision v sg1 = Some (r2, sg2)"
    using convertToRevision_returns by blast
  from 1 2 show ?thesis
    by (cases r1) (auto simp: exportVersionTo_def split: option.splits sum.splits prod.splits)
qed

lemma suprvsr_do_srcState:
  "suprvsr_do ct zero fn sg = (res, sg') \<Longrightarrow> srcState sg' = srcState sg"
  by (simp add: suprvsr_do_frame)

lemma exportVersionTo_srcState_mono:
  assumes "exportVersionTo v to sg = Some (res, sg')" and "bit (srcState sg) n"
  shows "bit (srcState sg') n"
proof -
  obtain r1 sg1 where 1: "require (sourceIsSetUp OR sourceExistsLocally) sg = Some (r1, sg1)"
    using require_returns by blast
  obtain r2 sg2 where 2: "convertToRevision v sg1 = Some (r2, sg2)"
    using convertToRevision_returns by blast
  from 1 assms(2) have k1: "bit (srcState sg1) n" by (rule require_srcState_mono)
  with 2 have k2: "bit (srcState sg2) n" by (rule convertToRevision_srcState_mono)
  from assms(1) 1 2 k1 k2 show ?thesis
    by (cases r1)
      (auto simp: exportVersionTo_def dispatch_exportRevisionTo_def
        split: option.splits sum.splits prod.splits dest: suprvsr_do_srcState)
qed

lemma getManifestAndLock_returns: "\<exists>res sg'. getManifestAndLock pr v an sg = Some (res, sg')"
proof -
  obtain r1 sg1 where 1: "convertToRevision v sg = Some (r1, sg1)"
    using convertToRevision_returns by blast
  obtain r2 sg2 where 2: "require (sourceIsSetUp OR sourceExistsLocally) sg1 = Some (r2, sg2)"
    using require_returns by blast
  from 1 2 show ?thesis
    by (cases r2) (auto simp: getManifestAndLock_def split: option.splits sum.splits prod.splits)
qed

lemma getManifestAndLock_srcState_mono:
  assumes "getManifestAndLock pr v an sg = Some (res, sg')" and "bit (srcState sg) n"
  shows "bit (srcState sg') n"
proof -
  obtain r1 sg1 where 1: "convertToRevision v sg = Some (r1, sg1)"
    using convertToRevision_returns by blast
  obtain r2 sg2 where 2: "require (sourceIsSetUp OR sourceExistsLocally) sg1 = Some (r2, sg2)"
    using require_returns by blast
  from 1 assms(2) have k1: "bit (srcState sg1) n" by (rule convertToRevision_srcState_mono)
  with 2 have k2: "bit (srcState sg2) n" by (rule require_srcState_mono)
  from assms(1) 1 2 k1 k2 show ?thesis
    by (cases r2)
      (auto simp: getManifestAndLock_def dispatch_getManifestAndLock_def
        split: option.splits sum.splits prod.splits dest: suprvsr_do_srcState)
qed

lemma listPackages_returns: "\<exists>res sg'. listPackages pr v sg = Some (res, sg')"
proof -
  obtain r1 sg1 where 1: "convertToRevision v sg = Some (r1, sg1)"
    using convertToRevision_returns by blast
  obtain r2 sg2 where 2: "require (sourceIsSetUp OR sourceExistsLocally) sg1 = Some (r2, sg2)"
    using require_returns by blast
  from 1 2 show ?thesis
    by (cases r2) (auto simp: listPackages_def split: option.splits sum.splits prod.splits)
qed

lemma listPackages_srcState_mono:
  assumes "listPackages pr v sg = Some (res, sg')" and "bit (srcState sg) n"
  shows "bit (srcState sg') n"
proof -
  obtain r1 sg1 where 1: "convertToRevision v sg = Some (r1, sg1)"
    using convertToRevision_returns by blast
  obtain r2 sg2 where 2: "require (sourceIsSetUp OR sourceExistsLocally) sg1 = Some (r2, sg2)"
    using require_returns by blast
  from 1 assms(2) have k1: "bit (srcState sg1) n" by (rule convertToRevision_srcState_mono)
  with 2 have k2: "bit (srcState sg2) n" by (rule require_srcState_mono)
  from assms(1) 1 2 k1 k2 show ?thesis
    by (cases r2)
      (auto simp: listPackages_def dispatch_listPackages_def
        split: option.splits sum.splits prod.splits dest: suprvsr_do_srcState)
qed

lemma listVersions_returns: "\<exists>res sg'. listVersions sg = Some (res, sg')"
  using require_returns
    [of "sourceIsSetUp OR sourceExistsUpstream OR sourceHasLatestVersionList" sg]
  by (auto simp: listVersions_def split: option.splits)

lemma listVersions_srcState_mono:
  "listVersions sg = Some (res, sg') \<Longrightarrow> bit (srcState sg) n \<Longrightarrow> bit (srcState sg') n"
  by (auto simp: listVersions_def bind_eq_Some_conv split: option.splits
      dest: require_srcState_mono)

lemma revisionPresentIn_returns: "\<exists>res sg'. revisionPresentIn r sg = Some (res, sg')"
  using require_returns [of "sourceIsSetUp OR sourceExistsLocally" sg]
  by (auto simp: revisionPresentIn_def split: option.splits prod.splits)

lemma revisionPresentIn_srcState_mono:
  "revisionPresentIn r sg = Some (res, sg') \<Longrightarrow> bit (srcState sg) n \<Longrightarrow> bit (srcState sg') n"
  by (auto simp: revisionPresentIn_def bind_eq_Some_conv
      split: option.splits prod.splits if_splits dest: require_srcState_mono)

lemma sourceURL_returns: "\<exists>res sg'. sourceURL sg = Some (res, sg')"
  using require_returns [of sourceIsSetUp sg]
  by (auto simp: sourceURL_def split: option.splits)

lemma sourceURL_srcState_mono:
  "sourceURL sg = Some (res, sg') \<Longrightarrow> bit (srcState sg) n \<Longrightarrow> bit (srcState sg') n"
  by (auto simp: sourceURL_def bind_eq_Some_conv split: option.splits
      dest: require_srcState_mono)

lemma after_call_returns: "\<exists>sg'. after_call c sg = Some sg'"
proof (cases c)
  case CallSyncLocal
  then show ?thesis using syncLocal_returns [of sg] by auto
next
  case (CallCheckExistence ex)
  then show ?thesis using checkExistence_returns [of ex sg] by auto
next
  case (CallExportVersionTo v to)
  then show ?thesis using exportVersionTo_returns [of v to sg] by auto
next
  case (CallGetManifestAndLock pr v an)
  then show ?thesis using getManifestAndLock_returns [of pr v an sg] by auto
next
  case (CallListPackages pr v)
  then show ?thesis using listPackages_returns [of pr v sg] by auto
next
  case (CallConvertToRevision v)
  then show ?thesis using convertToRevision_returns [of v sg] by auto
next
  case CallListVersions
  then show ?thesis using listVersions_returns [of sg] by auto
next
  case (CallRevisionPresentIn r)
  then show ?thesis using revisionPresentIn_returns [of r sg] by auto
next
  case CallSourceURL
  then show ?thesis using sourceURL_returns [of sg] by auto
qed

lemma after_call_srcState_mono:
  assumes "after_call c sg = Some sg'" and "bit (srcState sg) n"
  shows "bit (srcState sg') n"
  using assms
  by (cases c)
    (auto dest: syncLocal_srcState_mono checkExistence_srcState_mono
      exportVersionTo_srcState_mono getManifestAndLock_srcState_mono
      listPackages_srcState_mono convertToRevision_srcState_mono listVersions_srcState_mono
      revisionPresentIn_srcState_mono sourceURL_srcState_mono)

subsection \<open>The cache of manifests and locks, and the set-up bit\<close>













subsection \<open>The calls a resolution dispatches\<close>

lemma convertToRevision_calls:
  assumes "convertToRevision v sg = Some (res, sg')"
  shows "\<exists>cs. calls sg' = calls sg @ cs \<and>
           set cs \<subseteq> {ctSourcePing, ctSourceInit, ctListVersions, ctSourceFetch}"
proof -
  obtain r1 sg1 where 1: "require (sourceIsSetUp OR sourceHasLatestVersionList) sg = Some (r1, sg1)"
    using require_returns by blast
  from assms 1 have "sg' = sg \<or> sg' = sg1"
    by (cases r1) (auto simp: convertToRevision_def split: option.splits if_splits)
  with require_calls [OF 1] show ?thesis by auto
qed

subsection \<open>A gateway that is not set up has not used its cache\<close>


























subsection \<open>Evaluations on the concrete source\<close>

text \<open>The equations the evaluations unfold, and what the operations return on the
  gateways over the concrete source.\<close>

lemmas run_defs = require_def require_loop.simps require_switch_def suprvsr_do_def
  state_bits existsInVendorRoot_def existsInCache_def existsUpstream_def

lemmas cache_defs = newMemoryCache_def cache_toRevision_def cache_getVersionsFor_def
  cache_markRevisionExists_def cache_storeVersionMap_def cache_getAllVersions_def
  cache_getManifestAndLock_def cache_setManifestAndLock_def cache_getPackageTree_def
  cache_setPackageTree_def

lemmas demo_defs = demo_versions_def demo_source_def demo_suprvsr_def listing_maybe_def
  quiet_maybe_def local_maybe_def demo_cache_def newSourceGateway_def

lemmas gw_defs = fresh_gateway_def listed_gateway_def cloned_gateway_def

lemma syncLocal_listed: "syncLocal listed_gateway = Some (None, synced_gateway)"
  by (simp add: syncLocal_def synced_gateway_def gw_defs demo_defs cache_defs run_defs)

lemma convertToRevision_synced:
  "convertToRevision ''v9.9.9'' synced_gateway = Some (Inl (NoSuchVersion ''v9.9.9''), synced_gateway)"
  by (simp add: convertToRevision_def synced_gateway_def gw_defs demo_defs cache_defs state_bits)






lemma require_listed_locally:
  "require (sourceIsSetUp OR sourceExistsLocally) listed_gateway = Some ((0, None), synced_gateway)"
  by (simp add: synced_gateway_def gw_defs demo_defs run_defs)

lemma convertToRevision_listed_unknown:
  "convertToRevision ''v9.9.9'' listed_gateway =
     Some (Inl (NoSuchVersion ''v9.9.9''), listed_gateway)"
  by (simp add: convertToRevision_def gw_defs demo_defs cache_defs state_bits)

lemma require_fresh_listing_locally:
  "require (sourceIsSetUp OR sourceExistsLocally) (fresh_gateway listing_maybe) =
     Some ((0, None), unresolved_gateway)"
  by (simp add: unresolved_gateway_def probed_gateway_def gw_defs demo_defs run_defs)

lemma convertToRevision_unresolved:
  "convertToRevision ''v9.9.9'' unresolved_gateway =
     Some (Inl (NoSuchVersion ''v9.9.9''), unresolved_gateway)"
  by (simp add: convertToRevision_def unresolved_gateway_def probed_gateway_def gw_defs
      demo_defs cache_defs state_bits)

lemma convertToRevision_resolved:
  "convertToRevision ''v1.2.3'' unresolved_gateway = Some (Inr ''r1'', unresolved_gateway)"
  by (simp add: convertToRevision_def unresolved_gateway_def probed_gateway_def gw_defs
      demo_defs cache_defs state_bits)

lemma dispatch_export_unresolved:
  "dispatch_exportRevisionTo demo_source ''r1'' ''/tmp/export'' unresolved_gateway =
     (((), None), exported_gateway)"
  by (simp add: dispatch_exportRevisionTo_def suprvsr_do_def exported_gateway_def
      unresolved_gateway_def probed_gateway_def gw_defs demo_defs)

lemma require_unreachable:
  "require (sourceIsSetUp OR sourceExistsLocally) unreachable_gateway =
     Some ((sourceIsSetUp, Some (ProbeFailed ''unreachable'')), unreachable_gateway)"
  by (simp add: unreachable_gateway_def demo_defs run_defs)

lemma require_offline:
  "require (sourceIsSetUp OR sourceExistsUpstream) offline_gateway =
     Some ((sourceExistsUpstream, Some (NotUpstream ''https://example.com/x/y'')),
           offline_probed_gateway)"
  by (simp add: offline_probed_gateway_def offline_gateway_def demo_defs run_defs)

lemma require_fresh_quiet:
  "require (sourceIsSetUp OR sourceHasLatestVersionList) (fresh_gateway quiet_maybe) =
     Some ((0, None), unlisted_gateway)"
  by (simp add: unlisted_gateway_def gw_defs demo_defs run_defs)

lemma convertToRevision_fresh_quiet:
  "convertToRevision ''v1.2.3'' (fresh_gateway quiet_maybe) =
     Some (Inl (NoSuchVersion ''v1.2.3''), unlisted_gateway)"
proof -
  have "cache_toRevision (cache (fresh_gateway quiet_maybe)) ''v1.2.3'' = None"
    "srcState (fresh_gateway quiet_maybe) AND sourceHasLatestVersionList = 0"
    "cache_toRevision (cache unlisted_gateway) ''v1.2.3'' = None"
    by (simp_all add: unlisted_gateway_def gw_defs demo_defs cache_defs)
  then show ?thesis by (simp add: convertToRevision_def require_fresh_quiet)
qed

lemma require_stale:
  "require (sourceIsSetUp OR sourceHasLatestVersionList) stale_gateway =
     Some ((sourceHasLatestVersionList, Some (BackendError ''unreachable'')),
           stale_gateway\<lparr>calls := [ctListVersions],
                          cache := cache_storeVersionMap demo_cache [] True\<rparr>)"
  by (simp add: stale_gateway_def demo_defs run_defs)




lemma require_guarded:
  "require (sourceIsSetUp OR sourceExistsLocally OR sourceHasLatestVersionList) guarded_gateway =
     Some ((sourceHasLatestVersionList, Some (SupervisorRefused ''busy'')), guarded_cloned_gateway)"
  by (simp add: guarded_cloned_gateway_def guarded_gateway_def listless_suprvsr_def demo_defs
      run_defs)

lemma require_guarded_set_up:
  "require sourceIsSetUp guarded_gateway =
     Some ((0, None), guarded_gateway\<lparr>src := Some demo_source, srcState := sourceIsSetUp\<rparr>)"
  by (simp add: guarded_gateway_def listless_suprvsr_def demo_defs run_defs)






section \<open>The properties claimed of the gateway\<close>

text \<open>
  C1. The step for \<open>sourceHasLatestVersionList\<close> reads
  \<^verbatim>\<open>if err != nil { sg.cache.storeVersionMap(pvl, true) }\<close>. On a new gateway whose
  adapter lists two versions, \<^verbatim>\<open>require\<close> succeeds and sets the bit, the cache is still
  empty, and resolving the listed version \<open>v1.2.3\<close> fails with the no-such-version
  error. On a gateway whose cache resolves \<open>v1.2.3\<close> and whose adapter fails to list the
  versions, \<^verbatim>\<open>require\<close> returns the error and has stored the empty list with
  \<open>flush = True\<close>, after which the cache resolves \<open>v1.2.3\<close> no more.
\<close>

theorem require_stores_version_list_on_error:
  "src_listVersions demo_source (world (fresh_gateway quiet_maybe)) =
     ((demo_versions, None), world (fresh_gateway quiet_maybe)) \<and>
   require (sourceIsSetUp OR sourceHasLatestVersionList) (fresh_gateway quiet_maybe) =
     Some ((0, None), unlisted_gateway) \<and>
   srcState unlisted_gateway AND sourceHasLatestVersionList = sourceHasLatestVersionList \<and>
   cache unlisted_gateway = newMemoryCache \<and>
   convertToRevision ''v1.2.3'' (fresh_gateway quiet_maybe) =
     Some (Inl (NoSuchVersion ''v1.2.3''), unlisted_gateway) \<and>
   cache_toRevision (cache stale_gateway) ''v1.2.3'' = Some ''r1'' \<and>
   src_listVersions demo_source (world stale_gateway) =
     (([], Some (BackendError ''unreachable'')), world stale_gateway) \<and>
   require (sourceIsSetUp OR sourceHasLatestVersionList) stale_gateway =
     Some ((sourceHasLatestVersionList, Some (BackendError ''unreachable'')),
           stale_gateway\<lparr>calls := [ctListVersions],
                          cache := cache_storeVersionMap demo_cache [] True\<rparr>) \<and>
   cache_toRevision (cache_storeVersionMap demo_cache [] True) ''v1.2.3'' = None"
  by (simp add: require_fresh_quiet convertToRevision_fresh_quiet require_stale)
    (simp add: unlisted_gateway_def stale_gateway_def gw_defs demo_defs cache_defs state_bits)

text \<open>
  C2. \<^verbatim>\<open>convertToRevision(v)\<close>: if the cache has a revision for \<open>v\<close>, it is returned and
  the gateway is left as it was. Otherwise, if \<open>sourceHasLatestVersionList\<close> is set, the
  call fails with the no-such-version error and the gateway is left as it was, so nothing
  has been dispatched. Otherwise \<^verbatim>\<open>require\<close> is called for the set-up and version-list
  bits; it returns, its error is returned if it has one, and else the cache is looked up
  again, a second miss being the no-such-version error.
\<close>

theorem convertToRevision_algorithm:
  "(cache_toRevision (cache sg) v = Some r \<longrightarrow> convertToRevision v sg = Some (Inr r, sg)) \<and>
   (cache_toRevision (cache sg) v = None \<and> srcState sg AND sourceHasLatestVersionList \<noteq> 0 \<longrightarrow>
      convertToRevision v sg = Some (Inl (NoSuchVersion v), sg)) \<and>
   (cache_toRevision (cache sg) v = None \<and> srcState sg AND sourceHasLatestVersionList = 0 \<longrightarrow>
      (\<exists>errState err sg1.
         require (sourceIsSetUp OR sourceHasLatestVersionList) sg = Some ((errState, err), sg1) \<and>
         convertToRevision v sg =
           Some (case err of
                   Some e \<Rightarrow> Inl e
                 | None \<Rightarrow> (case cache_toRevision (cache sg1) v of
                               None \<Rightarrow> Inl (NoSuchVersion v)
                             | Some r' \<Rightarrow> Inr r'),
                 sg1)))"
proof (intro conjI impI)
  assume "cache_toRevision (cache sg) v = Some r"
  then show "convertToRevision v sg = Some (Inr r, sg)" by (simp add: convertToRevision_def)
next
  assume "cache_toRevision (cache sg) v = None \<and> srcState sg AND sourceHasLatestVersionList \<noteq> 0"
  then show "convertToRevision v sg = Some (Inl (NoSuchVersion v), sg)"
    by (simp add: convertToRevision_def)
next
  assume miss: "cache_toRevision (cache sg) v = None \<and> srcState sg AND sourceHasLatestVersionList = 0"
  obtain errState err sg1 where
    req: "require (sourceIsSetUp OR sourceHasLatestVersionList) sg = Some ((errState, err), sg1)"
    using require_returns [of "sourceIsSetUp OR sourceHasLatestVersionList" sg] by auto
  with miss have "convertToRevision v sg =
      Some (case err of Some e \<Rightarrow> Inl e
            | None \<Rightarrow> (case cache_toRevision (cache sg1) v of
                          None \<Rightarrow> Inl (NoSuchVersion v) | Some r' \<Rightarrow> Inr r'), sg1)"
    by (simp add: convertToRevision_def split: option.splits)
  with req show "\<exists>errState err sg1.
         require (sourceIsSetUp OR sourceHasLatestVersionList) sg = Some ((errState, err), sg1) \<and>
         convertToRevision v sg =
           Some (case err of
                   Some e \<Rightarrow> Inl e
                 | None \<Rightarrow> (case cache_toRevision (cache sg1) v of
                               None \<Rightarrow> Inl (NoSuchVersion v)
                             | Some r' \<Rightarrow> Inr r'),
                 sg1)" by blast
qed

theorem convertToRevision_algorithm_witness:
  "cache_toRevision (cache listed_gateway) ''v1.2.3'' = Some ''r1'' \<and>
   convertToRevision ''v1.2.3'' listed_gateway = Some (Inr ''r1'', listed_gateway) \<and>
   cache_toRevision (cache listed_gateway) ''v9.9.9'' = None \<and>
   srcState listed_gateway AND sourceHasLatestVersionList \<noteq> 0 \<and>
   convertToRevision ''v9.9.9'' listed_gateway = Some (Inl (NoSuchVersion ''v9.9.9''), listed_gateway) \<and>
   cache_toRevision (cache (fresh_gateway listing_maybe)) ''v1.2.3'' = None \<and>
   srcState (fresh_gateway listing_maybe) AND sourceHasLatestVersionList = 0 \<and>
   map_option fst (convertToRevision ''v1.2.3'' (fresh_gateway listing_maybe)) = Some (Inr ''r1'')"
  using convertToRevision_algorithm [of listed_gateway "''v1.2.3''" "''r1''"]
    convertToRevision_algorithm [of listed_gateway "''v9.9.9''" "''r1''"]
    convertToRevision_algorithm [of "fresh_gateway listing_maybe" "''v1.2.3''" "''r1''"]
  by (simp add: gw_defs demo_defs cache_defs run_defs)

text \<open>
  C3, as amended. \<^verbatim>\<open>exportVersionTo(v, to)\<close> first calls \<^verbatim>\<open>require\<close> for the set-up and
  exists-locally bits and returns its error if it has one; only then does it resolve
  \<open>v\<close>; and only with the revision does it dispatch the adapter's export. For a version
  that cannot be resolved the error of the resolution is returned and no export has been
  dispatched (the source-init call of the exists-locally step may have been).
\<close>

theorem exportVersionTo_order:
  assumes "require (sourceIsSetUp OR sourceExistsLocally) sg = Some ((errState, err), sg1)"
  shows "(err = Some e \<longrightarrow> exportVersionTo v to sg = Some (Some e, sg1)) \<and>
         (err = None \<and> convertToRevision v sg1 = Some (Inl e', sg2) \<longrightarrow>
            exportVersionTo v to sg = Some (Some e', sg2) \<and>
            (\<exists>cs. calls sg2 = calls sg @ cs \<and> ctExportTree \<notin> set cs)) \<and>
         (err = None \<and> convertToRevision v sg1 = Some (Inr r, sg2) \<and> src sg2 = Some s \<and>
          dispatch_exportRevisionTo s r to sg2 = ((u, err'), sg3) \<longrightarrow>
            exportVersionTo v to sg = Some (err', sg3) \<and> calls sg3 = calls sg2 @ [ctExportTree])"
proof (intro conjI impI; (elim conjE)?)
  assume "err = Some e"
  with assms show "exportVersionTo v to sg = Some (Some e, sg1)"
    by (simp add: exportVersionTo_def)
next
  assume e: "err = None" and c: "convertToRevision v sg1 = Some (Inl e', sg2)"
  with assms show "exportVersionTo v to sg = Some (Some e', sg2)"
    by (simp add: exportVersionTo_def)
  from require_calls [OF assms] obtain cs1 where
    1: "calls sg1 = calls sg @ cs1"
       "set cs1 \<subseteq> {ctSourcePing, ctSourceInit, ctListVersions, ctSourceFetch}" by blast
  from convertToRevision_calls [OF c] obtain cs2 where
    2: "calls sg2 = calls sg1 @ cs2"
       "set cs2 \<subseteq> {ctSourcePing, ctSourceInit, ctListVersions, ctSourceFetch}" by blast
  from 1 2 have "calls sg2 = calls sg @ (cs1 @ cs2)" "ctExportTree \<notin> set (cs1 @ cs2)" by auto
  then show "\<exists>cs. calls sg2 = calls sg @ cs \<and> ctExportTree \<notin> set cs" by blast
next
  assume "err = None" "convertToRevision v sg1 = Some (Inr r, sg2)" "src sg2 = Some s"
    and d: "dispatch_exportRevisionTo s r to sg2 = ((u, err'), sg3)"
  with assms show "exportVersionTo v to sg = Some (err', sg3)"
    by (simp add: exportVersionTo_def)
  from d show "calls sg3 = calls sg2 @ [ctExportTree]"
    by (simp add: dispatch_exportRevisionTo_def suprvsr_do_frame)
qed

theorem exportVersionTo_order_witness:
  "require (sourceIsSetUp OR sourceExistsLocally) unreachable_gateway =
     Some ((sourceIsSetUp, Some (ProbeFailed ''unreachable'')), unreachable_gateway) \<and>
   exportVersionTo ''v1.2.3'' ''/tmp/export'' unreachable_gateway =
     Some (Some (ProbeFailed ''unreachable''), unreachable_gateway) \<and>
   require (sourceIsSetUp OR sourceExistsLocally) (fresh_gateway listing_maybe) =
     Some ((0, None), unresolved_gateway) \<and>
   convertToRevision ''v9.9.9'' unresolved_gateway =
     Some (Inl (NoSuchVersion ''v9.9.9''), unresolved_gateway) \<and>
   exportVersionTo ''v9.9.9'' ''/tmp/export'' (fresh_gateway listing_maybe) =
     Some (Some (NoSuchVersion ''v9.9.9''), unresolved_gateway) \<and>
   ctExportTree \<notin> set (calls unresolved_gateway) \<and>
   convertToRevision ''v1.2.3'' unresolved_gateway = Some (Inr ''r1'', unresolved_gateway) \<and>
   src unresolved_gateway = Some demo_source \<and>
   dispatch_exportRevisionTo demo_source ''r1'' ''/tmp/export'' unresolved_gateway =
     (((), None), exported_gateway) \<and>
   exportVersionTo ''v1.2.3'' ''/tmp/export'' (fresh_gateway listing_maybe) =
     Some (None, exported_gateway) \<and>
   calls exported_gateway = calls unresolved_gateway @ [ctExportTree]"
proof -
  have f: "src unresolved_gateway = Some demo_source"
    "calls unresolved_gateway = [ctSourceInit]"
    "calls (fresh_gateway listing_maybe) = []"
    by (simp_all add: unresolved_gateway_def probed_gateway_def gw_defs demo_defs)
  from exportVersionTo_order [OF require_unreachable,
      where e = "ProbeFailed ''unreachable''" and v = "''v1.2.3''" and to = "''/tmp/export''"
        and e' = "NoSuchVersion ''v9.9.9''" and ?sg2.0 = unresolved_gateway and r = "''r1''"
        and s = demo_source and u = "()" and err' = None and ?sg3.0 = exported_gateway]
    exportVersionTo_order [OF require_fresh_listing_locally,
      where e = "ProbeFailed ''unreachable''" and v = "''v9.9.9''" and to = "''/tmp/export''"
        and e' = "NoSuchVersion ''v9.9.9''" and ?sg2.0 = unresolved_gateway and r = "''r1''"
        and s = demo_source and u = "()" and err' = None and ?sg3.0 = exported_gateway]
    exportVersionTo_order [OF require_fresh_listing_locally,
      where e = "ProbeFailed ''unreachable''" and v = "''v1.2.3''" and to = "''/tmp/export''"
        and e' = "NoSuchVersion ''v9.9.9''" and ?sg2.0 = unresolved_gateway and r = "''r1''"
        and s = demo_source and u = "()" and err' = None and ?sg3.0 = exported_gateway]
    require_unreachable require_fresh_listing_locally convertToRevision_unresolved
    convertToRevision_resolved dispatch_export_unresolved f
  show ?thesis by simp
qed

text \<open>
  C3 as stated has the version resolved before the states are required, so that a
  version that cannot be resolved causes no source-init dispatch. On a gateway that is
  set up and has the latest version list but no clone, resolving the unknown version
  \<open>v9.9.9\<close> fails and dispatches nothing, while \<^verbatim>\<open>exportVersionTo\<close> for it has
  dispatched the source-init call before it fails with the same error.
\<close>

theorem exportVersionTo_resolves_first_counterexample:
  "convertToRevision ''v9.9.9'' listed_gateway =
     Some (Inl (NoSuchVersion ''v9.9.9''), listed_gateway) \<and>
   calls listed_gateway = [] \<and>
   exportVersionTo ''v9.9.9'' ''/tmp/export'' listed_gateway =
     Some (Some (NoSuchVersion ''v9.9.9''), synced_gateway) \<and>
   calls synced_gateway = [ctSourceInit]"
  by (simp add: convertToRevision_listed_unknown exportVersionTo_def require_listed_locally
      convertToRevision_synced)
    (simp add: synced_gateway_def gw_defs demo_defs)

text \<open>
  C4. The state bits are monotone: every sequence of calls of the gateway's operations,
  whether they succeed or fail, returns, and every bit of the state that is set before
  the sequence is set after it.
\<close>

theorem state_bits_never_cleared:
  "\<exists>sg'. after_calls cs sg = Some sg' \<and> (\<forall>n. bit (srcState sg) n \<longrightarrow> bit (srcState sg') n)"
proof (induction cs arbitrary: sg)
  case Nil
  show ?case by simp
next
  case (Cons c cs)
  obtain sg1 where 1: "after_call c sg = Some sg1"
    using after_call_returns by blast
  from Cons [of sg1] obtain sg' where
    2: "after_calls cs sg1 = Some sg'" "\<forall>n. bit (srcState sg1) n \<longrightarrow> bit (srcState sg') n"
    by blast
  from 1 2 have "after_calls (c # cs) sg = Some sg'" by simp
  moreover from 1 2 have "\<forall>n. bit (srcState sg) n \<longrightarrow> bit (srcState sg') n"
    by (blast dest: after_call_srcState_mono)
  ultimately show ?case by blast
qed

theorem state_bits_never_cleared_witness:
  "bit (srcState listed_gateway) 3 \<and>
   after_calls [CallSyncLocal, CallConvertToRevision ''v9.9.9''] listed_gateway = Some synced_gateway \<and>
   bit (srcState synced_gateway) 3"
  using state_bits_never_cleared [of "[CallSyncLocal, CallConvertToRevision ''v9.9.9'']" listed_gateway]
  by (simp add: syncLocal_listed convertToRevision_synced)
    (simp add: synced_gateway_def gw_defs state_bits)

text \<open>
  C5, as amended. When \<^verbatim>\<open>require(wanted)\<close> fails, it returns at once the error of the
  failing step with that step's flag as \<open>errState\<close>. The flag is one bit \<open>k\<close>, which was
  wanted and not set, and is still not set. Before it the call has done what
  \<^verbatim>\<open>require\<close> does for the wanted bits below \<open>k\<close>, with success, and the gateway is as
  the failing step has left that one. Its state is the state before the call with the
  wanted bits below \<open>k\<close> and the bits that the steps below \<open>k\<close> have reported OR'd in,
  and nothing else: so a bit at or above \<open>k\<close> is set by the call exactly when the
  candidate probe reported it and the set-up step was run in this call, or when it is
  \<open>sourceHasLatestLocally\<close> and the exists-locally step was run in this call and found no
  local copy, so that it called \<^verbatim>\<open>initLocal\<close>.
\<close>

theorem require_failure:
  assumes "require wanted sg = Some ((f, Some e), sg')"
  shows "\<exists>k<32. f = push_bit k 1 \<and> bit wanted k \<and>
           \<not> bit (srcState sg) k \<and> \<not> bit (srcState sg') k \<and>
           (\<exists>sgk addl. require (take_bit k wanted) sg = Some ((0, None), sgk) \<and>
                       require_switch f sgk = (addl, Some e, sg')) \<and>
           srcState sg' = srcState sg OR take_bit k wanted OR
             reported_by_probe k wanted sg OR reported_by_init k wanted sg"
proof -
  let ?todo = "NOT (srcState sg) AND wanted"
  from require_failure_prefix [OF assms] obtain k sgk addl where
    k: "k < 32" "f = push_bit k 1" "bit wanted k" "\<not> bit (srcState sg) k"
    "require (take_bit k wanted) sg = Some ((0, None), sgk)"
    "require_switch f sgk = (addl, Some e, sg')"
    by blast
  from assms have run: "require_loop (push_bit 0 1) ?todo sg = Some ((f, Some e), sg')"
    by (simp add: require_def)
  have "take_bit 0 ?todo = 0" by simp
  moreover have "?todo AND srcState sg = 0"
    by (auto simp: state_eq_iff bit_and_iff bit_not_iff)
  ultimately obtain k' where k': "failure_shape 0 ?todo sg f e sg' k'"
    using require_loop_failure [OF run, of f e sg'] by blast
  then have "k' < 32" "f = push_bit k' 1" "\<not> bit (srcState sg') k'"
    by (simp_all add: failure_shape_def)
  with k(1,2) have "k' = k" using bit_flag_iff [of k k] bit_flag_iff [of k' k] by simp
  with \<open>\<not> bit (srcState sg') k'\<close> have unset: "\<not> bit (srcState sg') k" by simp
  from k(6) have "srcState sg' = srcState sgk" by (simp add: switch_frame)
  with prefix_state [OF k(5)]
  have "srcState sg' = srcState sg OR take_bit k wanted OR
      reported_by_probe k wanted sg OR reported_by_init k wanted sg" by simp
  with k unset show ?thesis by blast
qed

theorem require_failure_witness:
  "require (sourceIsSetUp OR sourceExistsUpstream) offline_gateway =
     Some ((sourceExistsUpstream, Some (NotUpstream ''https://example.com/x/y'')),
           offline_probed_gateway) \<and>
   (\<exists>k<32. sourceExistsUpstream = push_bit k 1 \<and>
      bit (sourceIsSetUp OR sourceExistsUpstream) k \<and>
      \<not> bit (srcState offline_gateway) k \<and> \<not> bit (srcState offline_probed_gateway) k \<and>
      (\<exists>sgk addl.
          require (take_bit k (sourceIsSetUp OR sourceExistsUpstream)) offline_gateway =
            Some ((0, None), sgk) \<and>
          require_switch sourceExistsUpstream sgk =
            (addl, Some (NotUpstream ''https://example.com/x/y''), offline_probed_gateway)) \<and>
      srcState offline_probed_gateway =
        srcState offline_gateway OR take_bit k (sourceIsSetUp OR sourceExistsUpstream) OR
        reported_by_probe k (sourceIsSetUp OR sourceExistsUpstream) offline_gateway OR
        reported_by_init k (sourceIsSetUp OR sourceExistsUpstream) offline_gateway) \<and>
   sourceExistsUpstream = push_bit 1 1 \<and>
   srcState offline_gateway = 0 \<and>
   srcState offline_probed_gateway = sourceIsSetUp OR sourceExistsLocally \<and>
   reported_by_probe 1 (sourceIsSetUp OR sourceExistsUpstream) offline_gateway =
     sourceExistsLocally \<and>
   reported_by_init 1 (sourceIsSetUp OR sourceExistsUpstream) offline_gateway = 0 \<and>
   require (sourceIsSetUp OR sourceExistsLocally OR sourceHasLatestVersionList) guarded_gateway =
     Some ((sourceHasLatestVersionList, Some (SupervisorRefused ''busy'')),
           guarded_cloned_gateway) \<and>
   sourceHasLatestVersionList = push_bit 3 1 \<and>
   srcState guarded_gateway = 0 \<and>
   srcState guarded_cloned_gateway =
     sourceIsSetUp OR sourceExistsLocally OR sourceHasLatestLocally \<and>
   reported_by_probe 3 (sourceIsSetUp OR sourceExistsLocally OR sourceHasLatestVersionList)
     guarded_gateway = 0 \<and>
   reported_by_init 3 (sourceIsSetUp OR sourceExistsLocally OR sourceHasLatestVersionList)
     guarded_gateway = sourceHasLatestLocally"
proof -
  have offline:
    "sourceExistsUpstream = push_bit 1 1"
    "srcState offline_gateway = 0"
    "srcState offline_probed_gateway = sourceIsSetUp OR sourceExistsLocally"
    "reported_by_probe 1 (sourceIsSetUp OR sourceExistsUpstream) offline_gateway =
       sourceExistsLocally"
    "reported_by_init 1 (sourceIsSetUp OR sourceExistsUpstream) offline_gateway = 0"
    by (simp_all add: offline_probed_gateway_def offline_gateway_def demo_defs state_bits
        reported_by_probe_def reported_by_init_def probe_reported_def)
  have "take_bit 2 (sourceIsSetUp OR sourceExistsLocally OR sourceHasLatestVersionList) =
      sourceIsSetUp"
    by (simp add: state_bits)
  then have nlc: "no_local_copy
      (sourceIsSetUp OR sourceExistsLocally OR sourceHasLatestVersionList) guarded_gateway"
    by (simp add: no_local_copy_def require_guarded_set_up)
      (simp add: guarded_gateway_def demo_defs)
  have guarded:
    "sourceHasLatestVersionList = push_bit 3 1"
    "srcState guarded_gateway = 0"
    "srcState guarded_cloned_gateway =
       sourceIsSetUp OR sourceExistsLocally OR sourceHasLatestLocally"
    "reported_by_probe 3 (sourceIsSetUp OR sourceExistsLocally OR sourceHasLatestVersionList)
       guarded_gateway = 0"
    by (simp_all add: guarded_cloned_gateway_def guarded_gateway_def demo_defs state_bits
        reported_by_probe_def probe_reported_def)
  from guarded(2,4) nlc
  have init: "reported_by_init 3
      (sourceIsSetUp OR sourceExistsLocally OR sourceHasLatestVersionList) guarded_gateway =
      sourceHasLatestLocally"
    by (simp add: reported_by_init_def) (simp add: state_bits)
  from require_failure [OF require_offline] require_offline require_guarded offline guarded
    init
  show ?thesis by blast
qed

text \<open>
  C5 as stated says that no bit at or above the failing step is set by the call. A
  probe that works from the local clone reports \<open>sourceExistsLocally\<close>; when the ping of
  the next step fails, \<^verbatim>\<open>require\<close> returns the error of the exists-upstream step, and
  the higher bit \<open>sourceExistsLocally\<close>, which was not set before, is set.
\<close>

theorem require_failure_counterexample:
  "require (sourceIsSetUp OR sourceExistsUpstream) offline_gateway =
     Some ((sourceExistsUpstream, Some (NotUpstream ''https://example.com/x/y'')),
           offline_probed_gateway) \<and>
   sourceExistsUpstream < sourceExistsLocally \<and>
   srcState offline_gateway AND sourceExistsLocally = 0 \<and>
   srcState offline_probed_gateway AND sourceExistsLocally = sourceExistsLocally"
  by (simp add: require_offline)
    (simp add: offline_probed_gateway_def offline_gateway_def demo_defs state_bits)




text \<open>
  C7. \<^verbatim>\<open>revisionPresentIn(r)\<close>, once \<^verbatim>\<open>require\<close> has succeeded for the set-up and
  exists-locally bits: if the cache knows versions for \<open>r\<close> the answer is true and the
  adapter is not asked; otherwise the adapter's answer is returned as it is, the
  revision is marked in the cache exactly when the answer is yes without an error, and
  an absent revision is the answer false with no error.
\<close>

theorem revisionPresentIn_answers:
  assumes "require (sourceIsSetUp OR sourceExistsLocally) sg = Some ((errState, None), sg1)"
  shows "(cache_getVersionsFor (cache sg1) r = Some vs \<longrightarrow>
            revisionPresentIn r sg = Some ((True, None), sg1)) \<and>
         (cache_getVersionsFor (cache sg1) r = None \<and> src sg1 = Some s \<and>
          src_revisionPresentIn s r (world sg1) = (present, err) \<longrightarrow>
            revisionPresentIn r sg =
              Some ((present, err),
                    if err = None \<and> present
                    then sg1\<lparr>cache := cache_markRevisionExists (cache sg1) r\<rparr>
                    else sg1)) \<and>
         (cache_getVersionsFor (cache sg1) r = None \<and> src sg1 = Some s \<and>
          src_revisionPresentIn s r (world sg1) = (False, None) \<longrightarrow>
            revisionPresentIn r sg = Some ((False, None), sg1))"
  using assms by (simp add: revisionPresentIn_def)

theorem revisionPresentIn_answers_witness:
  "require (sourceIsSetUp OR sourceExistsLocally) cloned_gateway = Some ((0, None), cloned_gateway) \<and>
   cache_getVersionsFor (cache cloned_gateway) ''r1'' = Some [''v1.2.3''] \<and>
   revisionPresentIn ''r1'' cloned_gateway = Some ((True, None), cloned_gateway) \<and>
   cache_getVersionsFor (cache cloned_gateway) ''r3'' = None \<and>
   src cloned_gateway = Some demo_source \<and>
   src_revisionPresentIn demo_source ''r3'' (world cloned_gateway) = (True, None) \<and>
   revisionPresentIn ''r3'' cloned_gateway =
     Some ((True, None),
           cloned_gateway\<lparr>cache := cache_markRevisionExists (cache cloned_gateway) ''r3''\<rparr>) \<and>
   cache_getVersionsFor (cache cloned_gateway) ''r9'' = None \<and>
   src_revisionPresentIn demo_source ''r9'' (world cloned_gateway) = (False, None) \<and>
   revisionPresentIn ''r9'' cloned_gateway = Some ((False, None), cloned_gateway)"
proof -
  have req: "require (sourceIsSetUp OR sourceExistsLocally) cloned_gateway =
      Some ((0, None), cloned_gateway)"
    by (simp add: cloned_gateway_def demo_defs cache_defs run_defs)
  show ?thesis
    using req
      revisionPresentIn_answers [OF req, of "''r1''" "[''v1.2.3'']" demo_source True None]
      revisionPresentIn_answers [OF req, of "''r3''" "[]" demo_source True None]
      revisionPresentIn_answers [OF req, of "''r9''" "[]" demo_source False None]
    by (simp add: cloned_gateway_def demo_defs cache_defs)
qed

text \<open>
  C8. The base adapter's \<^verbatim>\<open>existsUpstream\<close> is the negation of the repository's
  \<^verbatim>\<open>Ping\<close>: it is true exactly when \<^verbatim>\<open>Ping\<close> returns false.
\<close>

theorem bs_existsUpstream_negates_Ping:
  "bs_existsUpstream bs w = (\<not> repo_Ping (crepo bs) w)"
  by (simp add: bs_existsUpstream_def)

text \<open>
  C9. When \<^verbatim>\<open>getManifestAndLock\<close> or \<^verbatim>\<open>listPackages\<close> has resolved the version, missed
  its cache, had \<^verbatim>\<open>require\<close> succeed and then gets an error from the call it dispatches
  through the supervisor, it returns that error and the cache is the one it had when the
  call was dispatched: nothing is stored.
\<close>

theorem backend_error_stores_nothing:
  "(convertToRevision v sg = Some (Inr r, sg1) \<and>
    cache_getManifestAndLock (cache sg1) r an = None \<and>
    require (sourceIsSetUp OR sourceExistsLocally) sg1 = Some ((errState, None), sg2) \<and>
    src sg2 = Some s \<and>
    dispatch_getManifestAndLock s pr r an sg2 = ((ml, Some e), sg3) \<longrightarrow>
      getManifestAndLock pr v an sg = Some (Inl e, sg3) \<and> cache sg3 = cache sg2) \<and>
   (convertToRevision v sg = Some (Inr r, sg1) \<and>
    cache_getPackageTree (cache sg1) r = None \<and>
    require (sourceIsSetUp OR sourceExistsLocally) sg1 = Some ((errState, None), sg2) \<and>
    src sg2 = Some s \<and>
    dispatch_listPackages s pr r sg2 = ((ptree, Some e'), sg4) \<longrightarrow>
      listPackages pr v sg = Some (Inl e', sg4) \<and> cache sg4 = cache sg2)"
proof (intro conjI impI; elim conjE)
  assume "convertToRevision v sg = Some (Inr r, sg1)"
    "cache_getManifestAndLock (cache sg1) r an = None"
    "require (sourceIsSetUp OR sourceExistsLocally) sg1 = Some ((errState, None), sg2)"
    "src sg2 = Some s"
    and d: "dispatch_getManifestAndLock s pr r an sg2 = ((ml, Some e), sg3)"
  then show "getManifestAndLock pr v an sg = Some (Inl e, sg3)"
    by (cases ml) (simp add: getManifestAndLock_def)
  from d show "cache sg3 = cache sg2"
    by (simp add: dispatch_getManifestAndLock_def suprvsr_do_frame)
next
  assume "convertToRevision v sg = Some (Inr r, sg1)"
    "cache_getPackageTree (cache sg1) r = None"
    "require (sourceIsSetUp OR sourceExistsLocally) sg1 = Some ((errState, None), sg2)"
    "src sg2 = Some s"
    and d: "dispatch_listPackages s pr r sg2 = ((ptree, Some e'), sg4)"
  then show "listPackages pr v sg = Some (Inl e', sg4)"
    by (simp add: listPackages_def)
  from d show "cache sg4 = cache sg2"
    by (simp add: dispatch_listPackages_def suprvsr_do_frame)
qed

theorem backend_error_stores_nothing_witness:
  "convertToRevision ''master'' cloned_gateway = Some (Inr ''r2'', cloned_gateway) \<and>
   cache_getManifestAndLock (cache cloned_gateway) ''r2'' (''broken'', 1) = None \<and>
   cache_getPackageTree (cache cloned_gateway) ''r2'' = None \<and>
   require (sourceIsSetUp OR sourceExistsLocally) cloned_gateway = Some ((0, None), cloned_gateway) \<and>
   src cloned_gateway = Some demo_source \<and>
   dispatch_getManifestAndLock demo_source ''root'' ''r2'' (''broken'', 1) cloned_gateway =
     ((([], []), Some (BackendError ''analysis failed'')),
      cloned_gateway\<lparr>calls := [ctGetManifestAndLock]\<rparr>) \<and>
   getManifestAndLock ''root'' ''master'' (''broken'', 1) cloned_gateway =
     Some (Inl (BackendError ''analysis failed''), cloned_gateway\<lparr>calls := [ctGetManifestAndLock]\<rparr>) \<and>
   cache (cloned_gateway\<lparr>calls := [ctGetManifestAndLock]\<rparr>) = cache cloned_gateway \<and>
   dispatch_listPackages demo_source ''root'' ''r2'' cloned_gateway =
     (([], Some (BackendError ''no packages'')), cloned_gateway\<lparr>calls := [ctListPackages]\<rparr>) \<and>
   listPackages ''root'' ''master'' cloned_gateway =
     Some (Inl (BackendError ''no packages''), cloned_gateway\<lparr>calls := [ctListPackages]\<rparr>) \<and>
   cache (cloned_gateway\<lparr>calls := [ctListPackages]\<rparr>) = cache cloned_gateway"
proof -
  have hyps:
    "convertToRevision ''master'' cloned_gateway = Some (Inr ''r2'', cloned_gateway)"
    "cache_getManifestAndLock (cache cloned_gateway) ''r2'' (''broken'', 1) = None"
    "cache_getPackageTree (cache cloned_gateway) ''r2'' = None"
    "require (sourceIsSetUp OR sourceExistsLocally) cloned_gateway = Some ((0, None), cloned_gateway)"
    "src cloned_gateway = Some demo_source"
    "dispatch_getManifestAndLock demo_source ''root'' ''r2'' (''broken'', 1) cloned_gateway =
       ((([], []), Some (BackendError ''analysis failed'')),
        cloned_gateway\<lparr>calls := [ctGetManifestAndLock]\<rparr>)"
    "dispatch_listPackages demo_source ''root'' ''r2'' cloned_gateway =
       (([], Some (BackendError ''no packages'')), cloned_gateway\<lparr>calls := [ctListPackages]\<rparr>)"
    by (simp_all add: convertToRevision_def dispatch_getManifestAndLock_def
        dispatch_listPackages_def suprvsr_do_def cloned_gateway_def demo_defs cache_defs
        loop_finished require_def state_bits)
  from backend_error_stores_nothing
    [where v = "''master''" and sg = cloned_gateway and r = "''r2''" and ?sg1.0 = cloned_gateway
       and an = "(''broken'', 1)" and errState = 0 and ?sg2.0 = cloned_gateway and s = demo_source
       and pr = "''root''" and ml = "([], [])" and e = "BackendError ''analysis failed''"
       and ?sg3.0 = "cloned_gateway\<lparr>calls := [ctGetManifestAndLock]\<rparr>" and ptree = "[]"
       and e' = "BackendError ''no packages''"
       and ?sg4.0 = "cloned_gateway\<lparr>calls := [ctListPackages]\<rparr>"]
    hyps
  show ?thesis by blast
qed

text \<open>
  C10. \<^verbatim>\<open>checkExistence\<close> with neither the exists-upstream nor the exists-in-cache flag
  returns true and leaves the gateway as it was: \<^verbatim>\<open>require\<close> is not called and nothing is
  dispatched.
\<close>

theorem checkExistence_without_flags:
  "ex AND existsUpstream = 0 \<Longrightarrow> ex AND existsInCache = 0 \<Longrightarrow>
     checkExistence ex sg = Some (Inr True, sg)"
  by (simp add: checkExistence_def)

theorem checkExistence_without_flags_witness:
  "existsInVendorRoot AND existsUpstream = 0 \<and> existsInVendorRoot AND existsInCache = 0 \<and>
   checkExistence existsInVendorRoot
       (newSourceGateway listing_maybe demo_suprvsr ''/cache'' \<lparr>cloned = False, reachable = True\<rparr>) =
     Some (Inr True,
       newSourceGateway listing_maybe demo_suprvsr ''/cache'' \<lparr>cloned = False, reachable = True\<rparr>)"
  using checkExistence_without_flags [of existsInVendorRoot
      "newSourceGateway listing_maybe demo_suprvsr ''/cache'' \<lparr>cloned = False, reachable = True\<rparr>"]
  by (simp add: existsInVendorRoot_def existsInCache_def existsUpstream_def)


end
